theory Spec2Isabelle
  imports Complex_Main "HOL-Library.AList"
begin

section \<open>Exceptions and mutable state\<close>

text \<open>
  The driver of \<^verbatim>\<open>fit_wrapper/wrapper.py\<close> mutates one shared context object and
  calls user code (model, criterion, optimizer, metrics, callbacks) that may raise.
  An action takes the world and returns either the raised error or a value, together
  with the world as it is at that moment: what was mutated before a raise stays mutated.
\<close>

datatype error = TypeError | IndexError | External string

type_synonym ('w, 'a) act = "'w \<Rightarrow> (error + 'a) \<times> 'w"

definition ret :: "'a \<Rightarrow> ('w, 'a) act" where
  "ret x w = (Inr x, w)"

definition lift :: "error + 'a \<Rightarrow> ('w, 'a) act" where
  "lift r w = (r, w)"

definition get :: "('w \<Rightarrow> 'a) \<Rightarrow> ('w, 'a) act" where
  "get f w = (Inr (f w), w)"

definition modify :: "('w \<Rightarrow> 'w) \<Rightarrow> ('w, unit) act" where
  "modify f w = (Inr (), f w)"

definition bind :: "('w, 'a) act \<Rightarrow> ('a \<Rightarrow> ('w, 'b) act) \<Rightarrow> ('w, 'b) act" where
  "bind m f w = (case m w of (Inl e, w') \<Rightarrow> (Inl e, w') | (Inr x, w') \<Rightarrow> f x w')"

text \<open>A block of statements: the first one that raises ends the block.\<close>

fun seqs :: "('w, unit) act list \<Rightarrow> ('w, unit) act" where
  "seqs [] w = (Inr (), w)"
| "seqs (m # ms) w = (case m w of (Inl e, w') \<Rightarrow> (Inl e, w') | (Inr _, w') \<Rightarrow> seqs ms w')"

section \<open>Meters\<close>

text \<open>
  Modelled from the spec: the meter class (\<^verbatim>\<open>AverageMeter\<close>) is not among the sources.
  Section 3 of the specification gives its attributes (sum, count, smoothed value,
  decay constant), all scalars; \<^verbatim>\<open>wrapper.py\<close> also reads \<^verbatim>\<open>name\<close>. The average is the
  cumulative mean (zero before any update); the smoothed average is seeded by the first
  value after a reset. Floating-point numbers are idealised as reals.
\<close>

record meter =
  mname :: string
  decay :: real
  msum :: real
  mcount :: nat
  smoothed :: real

definition meter_reset :: "meter \<Rightarrow> meter" where
  "meter_reset m = m\<lparr>msum := 0, mcount := 0, smoothed := 0\<rparr>"

definition meter_update :: "real \<Rightarrow> meter \<Rightarrow> meter" where
  "meter_update v m =
     m\<lparr>msum := msum m + v,
       mcount := Suc (mcount m),
       smoothed := (if mcount m = 0 then v else decay m * smoothed m + (1 - decay m) * v)\<rparr>"

definition avg :: "meter \<Rightarrow> real" where
  "avg m = (if mcount m = 0 then 0 else msum m / real (mcount m))"

definition avg_smooth :: "meter \<Rightarrow> real" where
  "avg_smooth m = smoothed m"

section \<open>The run context and the world around it\<close>

type_synonym addr = nat

datatype hook =
  OnTrainBegin | OnEpochBegin | OnBatchBegin | OnBatchEnd | OnEpochEnd | OnTrainEnd

text \<open>
  What the driver does to its collaborators, in order. \<open>Emit h e t i\<close>: the driver calls
  \<^verbatim>\<open>self.callbacks.h()\<close> while the context holds epoch \<open>e\<close>, train flag \<open>t\<close> and step \<open>i\<close>;
  \<open>Call k h\<close>: the dispatcher invokes hook \<open>h\<close> of the \<open>k\<close>-th registered callback.
\<close>

datatype event =
    Emit hook int bool nat
  | Call nat hook
  | ZeroGrad
  | Backward
  | OptStep
  | Synchronize
  | TimerReset
  | TqdmClear
  | SetDescription int int bool
  | SetPostfix "(string \<times> real) list"

text \<open>
  The fields of \<^verbatim>\<open>RunnerState\<close> that \<^verbatim>\<open>wrapper.py\<close> reads and writes, and the objects
  they refer to. Meters are objects: the context holds their addresses, \<open>heap\<close> holds
  their contents, so that a snapshot that aliased a live meter would be seen to change
  with it. \<open>params\<close> is the state of model and optimizer, \<open>training\<close> the mode set by
  \<^verbatim>\<open>model.train()\<close> and \<^verbatim>\<open>model.eval()\<close>, \<open>grad_enabled\<close> the global gradient switch.
\<close>

record ('p, 'x) world =
  num_epochs :: int
  batch_size :: int
  is_train :: bool
  epoch :: int
  step :: nat
  ep_size :: int
  verbose :: bool
  loss_meter :: addr
  metric_meters :: "addr list"
  train_loss :: "addr option"
  train_metrics :: "addr list option"
  val_loss :: "addr option"
  val_metrics :: "addr list option"
  st_input :: "('x \<times> 'x) option"
  st_output :: "'x option"
  params :: 'p
  training :: bool
  grad_enabled :: bool
  heap :: "addr \<Rightarrow> meter"
  next_addr :: addr
  trace :: "event list"

text \<open>
  Modelled from the spec: the callback classes are not among the sources. A callback
  implements a subset of the six hooks (section 3); a hook holds a reference to the
  context, reads and writes its fields, and returns or raises: it is an action on the
  world.
\<close>

type_synonym ('p, 'x) callback = "hook \<Rightarrow> (('p, 'x) world, unit) act option"

text \<open>
  The collaborators handed to \<^verbatim>\<open>Runner.__init__\<close>, with the library calls the step makes:
  each may raise. \<open>backward\<close> stands for the \<^verbatim>\<open>amp.scale_loss\<close> block with the backward
  pass inside it, \<open>to_numpy\<close> reads a scalar off a tensor (for a metric, after
  \<^verbatim>\<open>squeeze()\<close>).
\<close>

record ('p, 'x) env =
  forward :: "bool \<Rightarrow> 'p \<Rightarrow> 'x \<Rightarrow> error + 'x"
  criterion :: "'x \<Rightarrow> 'x \<Rightarrow> error + 'x"
  zero_grad :: "'p \<Rightarrow> error + 'p"
  backward :: "'x \<Rightarrow> 'p \<Rightarrow> error + 'p"
  opt_step :: "'p \<Rightarrow> error + 'p"
  synchronize :: "'p \<Rightarrow> error + 'p"
  to_numpy :: "'x \<Rightarrow> error + real"
  metrics :: "('x \<Rightarrow> 'x \<Rightarrow> error + 'x) list"
  callbacks :: "('p, 'x) callback list"

text \<open>
  A data source: the batches one pass over it yields, what \<^verbatim>\<open>len()\<close> returns (\<open>None\<close>
  when it has no length) and its \<^verbatim>\<open>batch_size\<close> attribute (\<open>None\<close> when it has none).
\<close>

record 'x loader =
  batches :: "('x \<times> 'x) list"
  len :: "nat option"
  batch_size_attr :: "int option"

subsection \<open>Primitive effects\<close>

definition log :: "event \<Rightarrow> (('p, 'x) world, unit) act" where
  "log ev w = (Inr (), w\<lparr>trace := trace w @ [ev]\<rparr>)"

definition reset_at :: "addr \<Rightarrow> ('p, 'x) world \<Rightarrow> ('p, 'x) world" where
  "reset_at a w = w\<lparr>heap := (heap w)(a := meter_reset (heap w a))\<rparr>"

definition update_at :: "real \<Rightarrow> addr \<Rightarrow> ('p, 'x) world \<Rightarrow> ('p, 'x) world" where
  "update_at v a w = w\<lparr>heap := (heap w)(a := meter_update v (heap w a))\<rparr>"

text \<open>\<^verbatim>\<open>copy(m)\<close>: a new object with the attribute values of \<open>m\<close>.\<close>

definition copy :: "addr \<Rightarrow> ('p, 'x) world \<Rightarrow> addr \<times> ('p, 'x) world" where
  "copy a w =
     (next_addr w, w\<lparr>heap := (heap w)(next_addr w := heap w a), next_addr := Suc (next_addr w)\<rparr>)"

fun copy_all :: "addr list \<Rightarrow> ('p, 'x) world \<Rightarrow> addr list \<times> ('p, 'x) world" where
  "copy_all [] w = ([], w)"
| "copy_all (a # as) w =
     (case copy a w of (n, w1) \<Rightarrow> (case copy_all as w1 of (ns, w2) \<Rightarrow> (n # ns, w2)))"

text \<open>A call into model or optimizer: recorded, then run on their state.\<close>

definition ext :: "event \<Rightarrow> ('p \<Rightarrow> error + 'p) \<Rightarrow> (('p, 'x) world, unit) act" where
  "ext ev f w =
     (let w1 = w\<lparr>trace := trace w @ [ev]\<rparr>
      in case f (params w1) of Inl e \<Rightarrow> (Inl e, w1) | Inr p \<Rightarrow> (Inr (), w1\<lparr>params := p\<rparr>))"

subsection \<open>The callback dispatcher\<close>

text \<open>
  A hook runs on the context: what it wrote stays written, also when it raises. The
  record of events is not part of the context, so it is out of the hook's reach.
\<close>

definition run_hook :: "(('p, 'x) world, unit) act \<Rightarrow> (('p, 'x) world, unit) act" where
  "run_hook f w = (case f w of (r, w') \<Rightarrow> (r, w'\<lparr>trace := trace w\<rparr>))"

text \<open>
  Modelled from the spec: \<^verbatim>\<open>Callbacks\<close> is not among the sources. Section 4.2: each event
  goes to the held callbacks in registration order, a callback without the hook is
  skipped, and an exception of a hook is not caught, so later callbacks do not run.
\<close>

fun call_hooks :: "hook \<Rightarrow> nat \<Rightarrow> ('p, 'x) callback list \<Rightarrow> (('p, 'x) world, unit) act" where
  "call_hooks h k [] w = (Inr (), w)"
| "call_hooks h k (cb # cbs) w =
     (case cb h of
        None \<Rightarrow> call_hooks h (Suc k) cbs w
      | Some f \<Rightarrow>
          (case run_hook f (w\<lparr>trace := trace w @ [Call k h]\<rparr>) of
             (Inl e, w1) \<Rightarrow> (Inl e, w1)
           | (Inr _, w1) \<Rightarrow> call_hooks h (Suc k) cbs w1))"

definition emit :: "('p, 'x) env \<Rightarrow> hook \<Rightarrow> (('p, 'x) world, unit) act" where
  "emit E h w =
     call_hooks h 0 (callbacks E)
       (w\<lparr>trace := trace w @ [Emit h (epoch w) (is_train w) (step w)]\<rparr>)"

section \<open>The driver\<close>

subsection \<open>\<^verbatim>\<open>Runner._make_step\<close>\<close>

definition train_branch :: "('p, 'x) env \<Rightarrow> 'x \<Rightarrow> (('p, 'x) world, unit) act" where
  "train_branch E loss =
     seqs [ext ZeroGrad (zero_grad E),
           ext Backward (backward E loss),
           ext OptStep (opt_step E),
           ext Synchronize (synchronize E)]"

definition update_metric ::
  "('p, 'x) env \<Rightarrow> 'x \<Rightarrow> 'x \<Rightarrow> ('x \<Rightarrow> 'x \<Rightarrow> error + 'x) \<times> addr \<Rightarrow> (('p, 'x) world, unit) act" where
  "update_metric E out target = (\<lambda>(metric, meter).
     bind (lift (metric out target)) (\<lambda>r.
     bind (lift (to_numpy E r)) (\<lambda>v.
     modify (update_at v meter))))"

definition make_step :: "('p, 'x) env \<Rightarrow> 'x \<times> 'x \<Rightarrow> (('p, 'x) world, unit) act" where
  "make_step E batch =
     bind (modify (\<lambda>w. w\<lparr>st_input := Some batch\<rparr>)) (\<lambda>_.
     case batch of (images, target) \<Rightarrow>
     bind (get (\<lambda>w. forward E (training w) (params w) images)) (\<lambda>r.
     bind (lift r) (\<lambda>out.
     bind (modify (\<lambda>w. w\<lparr>st_output := Some out\<rparr>)) (\<lambda>_.
     bind (lift (criterion E out target)) (\<lambda>loss.
     bind (get is_train) (\<lambda>t.
     bind (if t then train_branch E loss else ret ()) (\<lambda>_.
     bind (lift (to_numpy E loss)) (\<lambda>v.
     bind (get loss_meter) (\<lambda>a.
     bind (modify (update_at v a)) (\<lambda>_.
     bind (get metric_meters) (\<lambda>ms.
     seqs (map (update_metric E out target) (zip (metrics E) ms)))))))))))))"

subsection \<open>\<^verbatim>\<open>Runner._run_one_epoch\<close>\<close>

definition py_len :: "'x loader \<Rightarrow> error + int" where
  "py_len l = (case len l of None \<Rightarrow> Inl TypeError | Some n \<Rightarrow> Inr (int n))"

text \<open>\<^verbatim>\<open>steps or len(loader)\<close>: \<^verbatim>\<open>len\<close> is called only when \<^verbatim>\<open>steps\<close> is \<^verbatim>\<open>None\<close> or zero.\<close>

definition steps_or_len :: "int option \<Rightarrow> 'x loader \<Rightarrow> error + int" where
  "steps_or_len steps l =
     (case steps of None \<Rightarrow> py_len l | Some n \<Rightarrow> if n = 0 then py_len l else Inr n)"

text \<open>
  \<^verbatim>\<open>hasattr(tqdm._instances)\<close>: the builtin takes exactly two arguments, so the call with
  one raises \<^verbatim>\<open>TypeError\<close> whatever the argument is.
\<close>

definition hasattr1 :: "error + bool" where
  "hasattr1 = Inl TypeError"

definition make_pbar :: "(('p, 'x) world, unit) act" where
  "make_pbar =
     bind (get verbose) (\<lambda>v.
       if v then
         bind (lift hasattr1) (\<lambda>b.
           seqs [if b then log TqdmClear else ret (),
                 bind (get (\<lambda>w. SetDescription (epoch w) (num_epochs w) (is_train w))) log])
       else ret ())"

text \<open>
  The progress line: an ordered dictionary that starts with the loss and is updated with
  one entry per metric meter, by name. Number formatting is left out.
\<close>

definition desc :: "('p, 'x) world \<Rightarrow> (string \<times> real) list" where
  "desc w =
     foldl (\<lambda>d m. AList.update (mname (heap w m)) (avg_smooth (heap w m)) d)
       [(''Loss'', avg_smooth (heap w (loss_meter w)))] (metric_meters w)"

text \<open>\<^verbatim>\<open>with torch.set_grad_enabled(flag)\<close>: the previous setting comes back on every exit.\<close>

definition with_set_grad_enabled ::
  "bool \<Rightarrow> (('p, 'x) world, 'a) act \<Rightarrow> (('p, 'x) world, 'a) act" where
  "with_set_grad_enabled b m w =
     (case m (w\<lparr>grad_enabled := b\<rparr>) of (r, w') \<Rightarrow> (r, w'\<lparr>grad_enabled := grad_enabled w\<rparr>))"

definition batch_body :: "('p, 'x) env \<Rightarrow> nat \<times> ('x \<times> 'x) \<Rightarrow> (('p, 'x) world, unit) act" where
  "batch_body E = (\<lambda>(i, batch).
     seqs [modify (\<lambda>w. w\<lparr>step := i\<rparr>),
           emit E OnBatchBegin,
           make_step E batch,
           bind (get verbose) (\<lambda>v.
             if v then bind (get desc) (\<lambda>d. log (SetPostfix d)) else ret ()),
           emit E OnBatchEnd])"

definition run_one_epoch ::
  "('p, 'x) env \<Rightarrow> 'x loader \<Rightarrow> int option \<Rightarrow> (('p, 'x) world, unit) act" where
  "run_one_epoch E loader steps =
     seqs [bind (get loss_meter) (\<lambda>a. modify (reset_at a)),
           log TimerReset,
           bind (get metric_meters) (\<lambda>ms. seqs (map (\<lambda>m. modify (reset_at m)) ms)),
           bind (lift (steps_or_len steps loader)) (\<lambda>n. modify (\<lambda>w. w\<lparr>ep_size := n\<rparr>)),
           make_pbar,
           bind (get is_train) (\<lambda>t.
             with_set_grad_enabled t (seqs (map (batch_body E) (enumerate 0 (batches loader)))))]"

subsection \<open>\<^verbatim>\<open>Runner.evaluate\<close>\<close>

definition evaluate ::
  "('p, 'x) env \<Rightarrow> 'x loader \<Rightarrow> int option \<Rightarrow> (('p, 'x) world, real \<times> real list) act" where
  "evaluate E loader steps =
     bind (seqs [modify (\<lambda>w. w\<lparr>is_train := False\<rparr>),
                 modify (\<lambda>w. w\<lparr>training := False\<rparr>),
                 run_one_epoch E loader steps]) (\<lambda>_.
     get (\<lambda>w. (avg (heap w (loss_meter w)), map (\<lambda>m. avg (heap w m)) (metric_meters w))))"

subsection \<open>\<^verbatim>\<open>Runner.fit\<close>\<close>

definition snapshot_train :: "('p, 'x) world \<Rightarrow> ('p, 'x) world" where
  "snapshot_train w =
     (case copy (loss_meter w) w of (a, w1) \<Rightarrow>
      case copy_all (metric_meters w1) (w1\<lparr>train_loss := Some a\<rparr>) of (as, w2) \<Rightarrow>
        w2\<lparr>train_metrics := Some as\<rparr>)"

definition snapshot_val :: "('p, 'x) world \<Rightarrow> ('p, 'x) world" where
  "snapshot_val w =
     (case copy (loss_meter w) w of (a, w1) \<Rightarrow>
      case copy_all (metric_meters w1) (w1\<lparr>val_loss := Some a\<rparr>) of (as, w2) \<Rightarrow>
        w2\<lparr>val_metrics := Some as\<rparr>)"

definition validate ::
  "('p, 'x) env \<Rightarrow> 'x loader option \<Rightarrow> int option \<Rightarrow> (('p, 'x) world, unit) act" where
  "validate E val_loader val_steps =
     (case val_loader of
        None \<Rightarrow> ret ()
      | Some vl \<Rightarrow> seqs [bind (evaluate E vl val_steps) (\<lambda>_. ret ()), modify snapshot_val])"

definition epoch_body ::
  "('p, 'x) env \<Rightarrow> 'x loader \<Rightarrow> int option \<Rightarrow> 'x loader option \<Rightarrow> int option \<Rightarrow> int
   \<Rightarrow> (('p, 'x) world, unit) act" where
  "epoch_body E train_loader steps_per_epoch val_loader val_steps ep =
     seqs [modify (\<lambda>w. w\<lparr>is_train := True\<rparr>),
           modify (\<lambda>w. w\<lparr>epoch := ep\<rparr>),
           emit E OnEpochBegin,
           modify (\<lambda>w. w\<lparr>training := True\<rparr>),
           run_one_epoch E train_loader steps_per_epoch,
           modify snapshot_train,
           validate E val_loader val_steps,
           emit E OnEpochEnd]"

text \<open>\<^verbatim>\<open>range(a, b)\<close> over Python's integers.\<close>

definition py_range :: "int \<Rightarrow> int \<Rightarrow> int list" where
  "py_range a b = [a..b - 1]"

definition fit ::
  "('p, 'x) env \<Rightarrow> 'x loader \<Rightarrow> int option \<Rightarrow> 'x loader option \<Rightarrow> int option \<Rightarrow> int \<Rightarrow> int
   \<Rightarrow> (('p, 'x) world, unit) act" where
  "fit E train_loader steps_per_epoch val_loader val_steps epochs start_epoch =
     seqs [modify (\<lambda>w. w\<lparr>num_epochs := epochs\<rparr>),
           modify (\<lambda>w. w\<lparr>batch_size :=
                     (case batch_size_attr train_loader of Some b \<Rightarrow> b | None \<Rightarrow> 1)\<rparr>),
           emit E OnTrainBegin,
           seqs (map (epoch_body E train_loader steps_per_epoch val_loader val_steps)
                   (py_range start_epoch epochs)),
           emit E OnTrainEnd]"

section \<open>The Unet decoder\<close>

text \<open>
  From \<^verbatim>\<open>segmentation_models/unet.py\<close>. A Python value here is a tensor or \<^verbatim>\<open>None\<close>. The
  blocks (\<^verbatim>\<open>UnetDecoderBlock\<close>, dropout, the final convolution) are not among the sources
  and are taken as parameters: functions that return a tensor or raise.
\<close>

datatype 'x pyval = PyNone | Tensor 'x

definition ebind :: "error + 'a \<Rightarrow> ('a \<Rightarrow> error + 'b) \<Rightarrow> error + 'b" where
  "ebind r f = (case r of Inl e \<Rightarrow> Inl e | Inr x \<Rightarrow> f x)"

text \<open>\<^verbatim>\<open>xs[i]\<close> for an index that is not negative.\<close>

definition py_index :: "'a list \<Rightarrow> nat \<Rightarrow> error + 'a" where
  "py_index xs i = (if i < length xs then Inr (xs ! i) else Inl IndexError)"

text \<open>
  \<^verbatim>\<open>UnetCenterBlock.forward\<close>: the body is the expression statement \<^verbatim>\<open>self.block(x)\<close>; with no
  \<^verbatim>\<open>return\<close>, the call yields \<^verbatim>\<open>None\<close> once the block has run.
\<close>

definition unet_center_block_forward ::
  "('x pyval \<Rightarrow> error + 'x) \<Rightarrow> 'x pyval \<Rightarrow> error + 'x pyval" where
  "unet_center_block_forward block x = ebind (block x) (\<lambda>_. Inr PyNone)"

record 'x unet_decoder =
  center :: "('x pyval \<Rightarrow> error + 'x) option"
  layer1 :: "'x pyval list \<Rightarrow> error + 'x"
  layer2 :: "'x pyval list \<Rightarrow> error + 'x"
  layer3 :: "'x pyval list \<Rightarrow> error + 'x"
  layer4 :: "'x pyval list \<Rightarrow> error + 'x"
  layer5 :: "'x pyval list \<Rightarrow> error + 'x"
  dropout :: "'x \<Rightarrow> error + 'x"
  final_conv :: "'x \<Rightarrow> error + 'x"

text \<open>
  \<^verbatim>\<open>UnetDecoder.forward\<close> up to the call of \<^verbatim>\<open>self.layer1\<close>: the list that call receives.
  A module is truthy, so \<^verbatim>\<open>if self.center\<close> tests whether a centre block was built.
\<close>

definition layer1_args :: "'x unet_decoder \<Rightarrow> 'x list \<Rightarrow> error + 'x pyval list" where
  "layer1_args D x =
     ebind (py_index x 0) (\<lambda>encoder_head.
     let skips = drop 1 x in
     ebind (case center D of
              Some c \<Rightarrow> unet_center_block_forward c (Tensor encoder_head)
            | None \<Rightarrow> Inr (Tensor encoder_head)) (\<lambda>encoder_head.
     ebind (py_index skips 0) (\<lambda>s0.
     Inr [encoder_head, Tensor s0])))"

definition unet_decoder_forward :: "'x unet_decoder \<Rightarrow> 'x list \<Rightarrow> error + 'x" where
  "unet_decoder_forward D x =
     (let skips = drop 1 x in
      ebind (layer1_args D x) (\<lambda>args.
      ebind (layer1 D args) (\<lambda>x1.
      ebind (py_index skips 1) (\<lambda>s1.
      ebind (layer2 D [Tensor x1, Tensor s1]) (\<lambda>x2.
      ebind (py_index skips 2) (\<lambda>s2.
      ebind (layer3 D [Tensor x2, Tensor s2]) (\<lambda>x3.
      ebind (py_index skips 3) (\<lambda>s3.
      ebind (layer4 D [Tensor x3, Tensor s3]) (\<lambda>x4.
      ebind (layer5 D [Tensor x4, PyNone]) (\<lambda>x5.
      ebind (dropout D x5) (\<lambda>x6.
      final_conv D x6)))))))))))"

section \<open>Observations on runs\<close>

text \<open>The optimizer operations a trace holds: gradient clears and update steps.\<close>

definition optimizer_calls :: "event list \<Rightarrow> event list" where
  "optimizer_calls tr = filter (\<lambda>ev. ev = ZeroGrad \<or> ev = OptStep) tr"

text \<open>The events of the training branch of a step.\<close>

fun is_step_ev :: "event \<Rightarrow> bool" where
  "is_step_ev ZeroGrad = True"
| "is_step_ev Backward = True"
| "is_step_ev OptStep = True"
| "is_step_ev Synchronize = True"
| "is_step_ev _ = False"

text \<open>The first three statements of \<^verbatim>\<open>_run_one_epoch\<close>, which cannot raise, as one update.\<close>

definition reset_all :: "('p, 'x) world \<Rightarrow> ('p, 'x) world" where
  "reset_all w =
     foldl (\<lambda>w m. reset_at m w)
       ((reset_at (loss_meter w) w)\<lparr>trace := trace w @ [TimerReset]\<rparr>) (metric_meters w)"

definition batch_loop :: "('p, 'x) env \<Rightarrow> 'x loader \<Rightarrow> (('p, 'x) world, unit) act" where
  "batch_loop E loader = seqs (map (batch_body E) (enumerate 0 (batches loader)))"

subsection \<open>Frame conditions\<close>

text \<open>
  \<open>keeps I f m\<close>: from a world where \<open>I\<close> holds, the action \<open>m\<close> ends (normally or by a
  raise) in a world where \<open>I\<close> holds and the observation \<open>f\<close> has its old value.
\<close>

definition keeps :: "('w \<Rightarrow> bool) \<Rightarrow> ('w \<Rightarrow> 'o) \<Rightarrow> ('w, 'a) act \<Rightarrow> bool" where
  "keeps I f m = (\<forall>w. I w \<longrightarrow> I (snd (m w)) \<and> f (snd (m w)) = f w)"

definition inert :: "('w \<Rightarrow> bool) \<Rightarrow> ('w \<Rightarrow> 'o) \<Rightarrow> ('w \<Rightarrow> 'w) \<Rightarrow> bool" where
  "inert I f g = (\<forall>w. I w \<longrightarrow> I (g w) \<and> f (g w) = f w)"

definition plain :: "(('p, 'x) world \<Rightarrow> bool) \<Rightarrow> (('p, 'x) world \<Rightarrow> 'o) \<Rightarrow> bool" where
  "plain I f =
     ((\<forall>x. inert I f (\<lambda>w. w\<lparr>st_input := x\<rparr>)) \<and>
      (\<forall>x. inert I f (\<lambda>w. w\<lparr>st_output := x\<rparr>)) \<and>
      (\<forall>x. inert I f (\<lambda>w. w\<lparr>params := x\<rparr>)) \<and>
      (\<forall>x. inert I f (\<lambda>w. w\<lparr>step := x\<rparr>)) \<and>
      (\<forall>x. inert I f (\<lambda>w. w\<lparr>grad_enabled := x\<rparr>)))"

definition live :: "addr \<Rightarrow> ('p, 'x) world \<Rightarrow> bool" where
  "live a w = (a = loss_meter w \<or> a \<in> set (metric_meters w))"

definition heap_ok :: "(('p, 'x) world \<Rightarrow> bool) \<Rightarrow> (('p, 'x) world \<Rightarrow> 'o) \<Rightarrow> bool" where
  "heap_ok I f =
     (\<forall>w a m. I w \<and> live a w \<longrightarrow>
        I (w\<lparr>heap := (heap w)(a := m)\<rparr>) \<and> f (w\<lparr>heap := (heap w)(a := m)\<rparr>) = f w)"

definition quiet :: "(('p, 'x) world \<Rightarrow> bool) \<Rightarrow> (('p, 'x) world \<Rightarrow> 'o) \<Rightarrow> event \<Rightarrow> bool" where
  "quiet I f ev = inert I f (\<lambda>w. w\<lparr>trace := trace w @ [ev]\<rparr>)"

subsection \<open>Test doubles\<close>

text \<open>
  A small concrete setting: tensors are integers, the state of model and optimizer is
  the number of update steps taken, no collaborator raises, one metric, no callbacks.
\<close>

definition blank :: meter where
  "blank = \<lparr>mname = ''m'', decay = 9 / 10, msum = 0, mcount = 0, smoothed = 0\<rparr>"

definition env0 :: "(nat, int) env" where
  "env0 = \<lparr>forward = (\<lambda>_ _ x. Inr x), criterion = (\<lambda>out t. Inr (out - t)),
     zero_grad = Inr, backward = (\<lambda>_ p. Inr p), opt_step = (\<lambda>p. Inr (Suc p)),
     synchronize = Inr, to_numpy = (\<lambda>x. Inr (of_int x)),
     metrics = [\<lambda>out t. Inr (out + t)], callbacks = []\<rparr>"

text \<open>The context of a fresh runner with one metric, with the given verbose flag.\<close>

definition w0 :: "bool \<Rightarrow> (nat, int) world" where
  "w0 v = \<lparr>num_epochs = 0, batch_size = 0, is_train = False, epoch = 0, step = 0, ep_size = 0,
     verbose = v, loss_meter = 0, metric_meters = [1], train_loss = None, train_metrics = None,
     val_loss = None, val_metrics = None, st_input = None, st_output = None, params = 0,
     training = False, grad_enabled = True, heap = (\<lambda>_. blank), next_addr = 2, trace = []\<rparr>"

text \<open>A source of two batches that knows its length, and one that does not.\<close>

definition loader2 :: "int loader" where
  "loader2 = \<lparr>batches = [(1, 0), (3, 0)], len = Some 2, batch_size_attr = Some 1\<rparr>"

definition stream2 :: "int loader" where
  "stream2 = \<lparr>batches = [(1, 0), (3, 0)], len = None, batch_size_attr = None\<rparr>"

definition decoder0 :: "int unet_decoder" where
  "decoder0 = \<lparr>center = Some (\<lambda>v. case v of Tensor x \<Rightarrow> Inr (x + 1) | PyNone \<Rightarrow> Inl TypeError),
     layer1 = (\<lambda>_. Inr 0), layer2 = (\<lambda>_. Inr 0), layer3 = (\<lambda>_. Inr 0), layer4 = (\<lambda>_. Inr 0),
     layer5 = (\<lambda>_. Inr 0), dropout = Inr, final_conv = Inr\<rparr>"

text \<open>
  Two callbacks that write the context: one drops the recorded output after each batch,
  one sets the train flag before each batch.
\<close>

definition forget_output :: "(nat, int) callback" where
  "forget_output h =
     (if h = OnBatchEnd then Some (modify (\<lambda>w. w\<lparr>st_output := None\<rparr>)) else None)"

definition flip_train :: "(nat, int) callback" where
  "flip_train h =
     (if h = OnBatchBegin then Some (modify (\<lambda>w. w\<lparr>is_train := True\<rparr>)) else None)"

definition env_forget :: "(nat, int) env" where
  "env_forget = env0\<lparr>callbacks := [forget_output]\<rparr>"

definition env_flip :: "(nat, int) env" where
  "env_flip = env0\<lparr>callbacks := [flip_train]\<rparr>"

text \<open>The number of \<^verbatim>\<open>on_batch_begin\<close> events a trace holds: the batches that were started.\<close>

definition batch_begins :: "event list \<Rightarrow> nat" where
  "batch_begins tr = length (filter (\<lambda>ev. case ev of Emit h _ _ _ \<Rightarrow> h = OnBatchBegin | _ \<Rightarrow> False) tr)"

text \<open>No callback raises in its hook \<open>h\<close>.\<close>

definition hooks_pass :: "('p, 'x) env \<Rightarrow> hook \<Rightarrow> bool" where
  "hooks_pass E h = (\<forall>cb \<in> set (callbacks E). \<forall>f w. cb h = Some f \<longrightarrow> fst (f w) = Inr ())"

text \<open>
  \<open>hooks_keep I f E\<close>: every hook of every callback, run from a context where \<open>I\<close> holds,
  leaves a context where \<open>I\<close> holds and the observation \<open>f\<close> has its old value.
\<close>

definition hooks_keep ::
  "(('p, 'x) world \<Rightarrow> bool) \<Rightarrow> (('p, 'x) world \<Rightarrow> 'o) \<Rightarrow> ('p, 'x) env \<Rightarrow> bool" where
  "hooks_keep I f E =
     (\<forall>cb \<in> set (callbacks E). \<forall>h g. cb h = Some g \<longrightarrow> keeps I f (run_hook g))"

text \<open>The hooks the driver emitted, in order.\<close>

fun hooks_of :: "event list \<Rightarrow> hook list" where
  "hooks_of [] = []"
| "hooks_of (Emit h e t i # tr) = h # hooks_of tr"
| "hooks_of (ev # tr) = hooks_of tr"

text \<open>
  \<open>grows xs m\<close>: whenever the action \<open>m\<close> returns normally, the hooks it emitted are
  exactly \<open>xs\<close>.
\<close>

definition grows :: "hook list \<Rightarrow> (('p, 'x) world, 'a) act \<Rightarrow> bool" where
  "grows xs m =
     (\<forall>w r w'. m w = (Inr r, w') \<longrightarrow> hooks_of (trace w') = hooks_of (trace w) @ xs)"

text \<open>The hooks of one pass over a source, and of one epoch of \<^verbatim>\<open>fit\<close>.\<close>

definition pass_hooks :: "'x loader \<Rightarrow> hook list" where
  "pass_hooks loader = concat (replicate (length (batches loader)) [OnBatchBegin, OnBatchEnd])"

definition epoch_hooks :: "'x loader \<Rightarrow> 'x loader option \<Rightarrow> hook list" where
  "epoch_hooks train_loader val_loader =
     OnEpochBegin # pass_hooks train_loader
       @ (case val_loader of None \<Rightarrow> [] | Some vl \<Rightarrow> pass_hooks vl) @ [OnEpochEnd]"

text \<open>The writes of \<^verbatim>\<open>fit\<close> and \<^verbatim>\<open>evaluate\<close> outside the batch loop leave \<open>I\<close> and \<open>f\<close> alone.\<close>

definition outer :: "(('p, 'x) world \<Rightarrow> bool) \<Rightarrow> (('p, 'x) world \<Rightarrow> 'o) \<Rightarrow> bool" where
  "outer I f =
     ((\<forall>n. inert I f (\<lambda>w. w\<lparr>ep_size := n\<rparr>)) \<and>
      (\<forall>b. inert I f (\<lambda>w. w\<lparr>is_train := b\<rparr>)) \<and>
      (\<forall>b. inert I f (\<lambda>w. w\<lparr>training := b\<rparr>)) \<and>
      (\<forall>k. inert I f (\<lambda>w. w\<lparr>epoch := k\<rparr>)) \<and>
      (\<forall>n. inert I f (\<lambda>w. w\<lparr>num_epochs := n\<rparr>)) \<and>
      (\<forall>n. inert I f (\<lambda>w. w\<lparr>batch_size := n\<rparr>)) \<and>
      inert I f snapshot_train \<and> inert I f snapshot_val)"

text \<open>No collaborator ever raises, and no hook turns verbose mode on.\<close>

definition calm :: "('p, 'x) env \<Rightarrow> bool" where
  "calm E =
     ((\<forall>t p x. \<not> isl (forward E t p x)) \<and> (\<forall>out t. \<not> isl (criterion E out t)) \<and>
      (\<forall>p. \<not> isl (zero_grad E p)) \<and> (\<forall>l p. \<not> isl (backward E l p)) \<and>
      (\<forall>p. \<not> isl (opt_step E p)) \<and> (\<forall>p. \<not> isl (synchronize E p)) \<and>
      (\<forall>x. \<not> isl (to_numpy E x)) \<and>
      (\<forall>m \<in> set (metrics E). \<forall>out t. \<not> isl (m out t)) \<and>
      (\<forall>h. hooks_pass E h) \<and> hooks_keep (\<lambda>w. \<not> verbose w) (\<lambda>_. ()) E)"

text \<open>\<open>total I m\<close>: from a world where \<open>I\<close> holds, the action \<open>m\<close> returns normally.\<close>

definition total :: "('w \<Rightarrow> bool) \<Rightarrow> ('w, 'a) act \<Rightarrow> bool" where
  "total I m = (\<forall>w. I w \<longrightarrow> \<not> isl (fst (m w)))"

text \<open>The epoch size of every pass of \<^verbatim>\<open>fit\<close> can be computed: no \<^verbatim>\<open>len()\<close> raises.\<close>

definition sized :: "'x loader \<Rightarrow> int option \<Rightarrow> 'x loader option \<Rightarrow> int option \<Rightarrow> bool" where
  "sized trl st vl vs =
     (\<not> isl (steps_or_len st trl) \<and>
      (case vl of None \<Rightarrow> True | Some l \<Rightarrow> \<not> isl (steps_or_len vs l)))"

text \<open>The live meters of the context are allocated objects.\<close>

definition wf_heap :: "('p, 'x) world \<Rightarrow> bool" where
  "wf_heap w = (loss_meter w < next_addr w \<and> (\<forall>m \<in> set (metric_meters w). m < next_addr w))"

text \<open>The objects the four snapshot fields of the context refer to.\<close>

definition snapshot_addrs :: "('p, 'x) world \<Rightarrow> addr set" where
  "snapshot_addrs w =
     set_option (train_loss w) \<union> (case train_metrics w of None \<Rightarrow> {} | Some as \<Rightarrow> set as)
     \<union> set_option (val_loss w) \<union> (case val_metrics w of None \<Rightarrow> {} | Some as \<Rightarrow> set as)"

text \<open>
  A well-formed context: the live meters are allocated, and every snapshot is an
  allocated object that is not one of the live meters. The context of a fresh runner is
  of this kind, and every operation of the driver keeps it so.
\<close>

definition snaps_ok :: "('p, 'x) world \<Rightarrow> bool" where
  "snaps_ok w = (wf_heap w \<and> (\<forall>a \<in> snapshot_addrs w. a < next_addr w \<and> \<not> live a w))"

text \<open>The four snapshot fields of the context.\<close>

definition snapshots :: "('p, 'x) world \<Rightarrow> addr option \<times> addr list option \<times> addr option \<times> addr list option" where
  "snapshots w = (train_loss w, train_metrics w, val_loss w, val_metrics w)"

text \<open>
  No hook touches the meters or the snapshots: the objects, the allocator and the fields
  of the context that refer to them are after each hook what they were before it.
\<close>

definition meter_view ::
  "('p, 'x) world \<Rightarrow> (addr \<Rightarrow> meter) \<times> addr \<times> addr \<times> addr list
     \<times> addr option \<times> addr list option \<times> addr option \<times> addr list option" where
  "meter_view w = (heap w, next_addr w, loss_meter w, metric_meters w, snapshots w)"

definition hooks_spare_meters :: "('p, 'x) env \<Rightarrow> bool" where
  "hooks_spare_meters E = hooks_keep (\<lambda>_. True) meter_view E"

text \<open>
  A source of one good batch and a source of one bad batch, for a model that raises on a
  negative input.
\<close>

definition loader1 :: "int loader" where
  "loader1 = \<lparr>batches = [(1, 0)], len = Some 1, batch_size_attr = Some 1\<rparr>"

definition bad_loader :: "int loader" where
  "bad_loader = \<lparr>batches = [(- 1, 0)], len = Some 1, batch_size_attr = Some 1\<rparr>"

definition bad_input :: error where
  "bad_input = External ''bad input''"

definition env_picky :: "(nat, int) env" where
  "env_picky = env0\<lparr>forward := (\<lambda>_ _ x. if x < 0 then Inl bad_input else Inr x)\<rparr>"

text \<open>The world of \<^verbatim>\<open>fit\<close> on a fresh quiet runner at the start of the first training pass.\<close>

definition w_start :: "(nat, int) world" where
  "w_start = (w0 False)\<lparr>num_epochs := 1, batch_size := 1, trace := [Emit OnTrainBegin 0 False 0],
     is_train := True, epoch := 0,
     trace := [Emit OnTrainBegin 0 False 0, Emit OnEpochBegin 0 True 0], training := True\<rparr>"

text \<open>
  A callback that raises before each batch, registered between the two writing callbacks,
  and an optimizer whose update step raises.
\<close>

definition alarm_error :: error where
  "alarm_error = External ''alarm''"

definition alarm :: "(nat, int) callback" where
  "alarm h = (if h = OnBatchBegin then Some (lift (Inl alarm_error)) else None)"

definition env_alarm :: "(nat, int) env" where
  "env_alarm = env0\<lparr>callbacks := [forget_output, alarm, flip_train]\<rparr>"

definition stuck :: error where
  "stuck = External ''optimizer stuck''"

definition env_stuck :: "(nat, int) env" where
  "env_stuck = env0\<lparr>opt_step := (\<lambda>_. Inl stuck)\<rparr>"

section \<open>Lemmas\<close>

lemma keeps_ret: "keeps I f (ret x)"
  by (simp add: keeps_def ret_def)

lemma keeps_lift: "keeps I f (lift r)"
  by (simp add: keeps_def lift_def)

lemma keeps_get: "keeps I f (get g)"
  by (simp add: keeps_def get_def)

lemma keeps_modify: "inert I f g \<Longrightarrow> keeps I f (modify g)"
  by (simp add: keeps_def inert_def modify_def)

lemma keeps_bind: "keeps I f m \<Longrightarrow> (\<And>x. keeps I f (k x)) \<Longrightarrow> keeps I f (bind m k)"
  unfolding keeps_def bind_def
  by (auto split: prod.splits sum.splits)

lemma keeps_seqs: "(\<And>m. m \<in> set ms \<Longrightarrow> keeps I f m) \<Longrightarrow> keeps I f (seqs ms)"
proof (induction ms)
  case Nil
  show ?case by (simp add: keeps_def)
next
  case (Cons m ms)
  have m: "keeps I f m" and ms: "keeps I f (seqs ms)"
    using Cons by simp_all
  show ?case
    unfolding keeps_def
  proof (intro allI impI)
    fix w assume "I w"
    obtain r w1 where mw: "m w = (r, w1)" by (cases "m w")
    from m \<open>I w\<close> mw have 1: "I w1" "f w1 = f w" by (auto simp: keeps_def dest!: spec[of _ w])
    from ms 1 have 2: "I (snd (seqs ms w1))" "f (snd (seqs ms w1)) = f w" by (auto simp: keeps_def)
    show "I (snd (seqs (m # ms) w)) \<and> f (snd (seqs (m # ms) w)) = f w"
      using mw 1 2 by (cases r) auto
  qed
qed

lemma keeps_get_bind:
  assumes "\<And>x. keeps (\<lambda>w. I w \<and> g w = x) f (k x)"
  shows "keeps I f (bind (get g) k)"
  unfolding keeps_def
proof (intro allI impI)
  fix w assume "I w"
  with assms[of "g w"] have "I (snd (k (g w) w)) \<and> f (snd (k (g w) w)) = f w"
    by (simp add: keeps_def)
  then show "I (snd (bind (get g) k w)) \<and> f (snd (bind (get g) k w)) = f w"
    by (simp add: bind_def get_def)
qed

lemma keeps_conj:
  assumes "keeps I g m" and "keeps I f m"
  shows "keeps (\<lambda>w. I w \<and> g w = x) f m"
  using assms by (simp add: keeps_def)

lemma keeps_if: "keeps I f a \<Longrightarrow> keeps I f b \<Longrightarrow> keeps I f (if c then a else b)"
  by simp


lemma keeps_log: "quiet I f ev \<Longrightarrow> keeps I f (log ev)"
  by (simp add: keeps_def quiet_def inert_def log_def)

lemma keeps_ext: "quiet I f ev \<Longrightarrow> plain I f \<Longrightarrow> keeps I f (ext ev g)"
  by (auto simp: keeps_def quiet_def plain_def inert_def ext_def Let_def split: sum.splits)

lemma keeps_call_hooks:
  assumes q: "\<And>k. quiet I f (Call k h)"
    and g: "\<And>cb g. cb \<in> set cbs \<Longrightarrow> cb h = Some g \<Longrightarrow> keeps I f (run_hook g)"
  shows "keeps I f (call_hooks h k cbs)"
  using g
proof (induction cbs arbitrary: k)
  case Nil
  show ?case by (simp add: keeps_def)
next
  case (Cons cb cbs)
  have ih: "keeps I f (call_hooks h k cbs)" for k
  proof (rule Cons.IH)
    fix c g assume "c \<in> set cbs" "c h = Some g"
    then show "keeps I f (run_hook g)" using Cons.prems[of c g] by simp
  qed
  have q': "\<And>k w. I w \<Longrightarrow> I (w\<lparr>trace := trace w @ [Call k h]\<rparr>) \<and> f (w\<lparr>trace := trace w @ [Call k h]\<rparr>) = f w"
    using q by (simp add: quiet_def inert_def)
  show ?case
    unfolding keeps_def
  proof (intro allI impI)
    fix w assume I: "I w"
    show "I (snd (call_hooks h k (cb # cbs) w)) \<and> f (snd (call_hooks h k (cb # cbs) w)) = f w"
    proof (cases "cb h")
      case None
      then show ?thesis using ih[of "Suc k"] I by (simp add: keeps_def)
    next
      case (Some g)
      let ?w1 = "w\<lparr>trace := trace w @ [Call k h]\<rparr>"
      from q'[OF I] have 1: "I ?w1" "f ?w1 = f w" by simp_all
      obtain r w2 where r: "run_hook g ?w1 = (r, w2)" by (cases "run_hook g ?w1")
      have "keeps I f (run_hook g)" using Cons.prems[of cb g] Some by simp
      with 1 r have 2: "I w2" "f w2 = f w" by (auto simp: keeps_def dest!: spec[of _ ?w1])
      from ih[of "Suc k"] 2 have 3: "I (snd (call_hooks h (Suc k) cbs w2))"
        "f (snd (call_hooks h (Suc k) cbs w2)) = f w" by (simp_all add: keeps_def)
      show ?thesis using Some r 2 3 by (cases r) simp_all
    qed
  qed
qed

lemma keeps_emit:
  assumes "\<And>e t i. quiet I f (Emit h e t i)" and "\<And>k. quiet I f (Call k h)"
    and "hooks_keep I f E"
  shows "keeps I f (emit E h)"
  unfolding keeps_def
proof (intro allI impI)
  fix w assume I: "I w"
  let ?w1 = "w\<lparr>trace := trace w @ [Emit h (epoch w) (is_train w) (step w)]\<rparr>"
  from assms(1) I have 1: "I ?w1" "f ?w1 = f w" by (simp_all add: quiet_def inert_def)
  have "keeps I f (call_hooks h 0 (callbacks E))"
    using assms(3) by (intro keeps_call_hooks assms(2)) (auto simp: hooks_keep_def)
  with 1 show "I (snd (emit E h w)) \<and> f (snd (emit E h w)) = f w"
    by (simp add: emit_def keeps_def)
qed

lemma hooks_keep_trace:
  "hooks_keep I (\<lambda>_. ()) E \<Longrightarrow> hooks_keep I (\<lambda>w. F (trace w)) E"
  by (auto simp: hooks_keep_def keeps_def run_hook_def split: prod.splits)


lemma hooks_keep_Nil: "callbacks E = [] \<Longrightarrow> hooks_keep I f E"
  by (simp add: hooks_keep_def)

lemma keeps_train_branch:
  assumes "\<And>ev. is_step_ev ev \<Longrightarrow> quiet I f ev" and "plain I f"
  shows "keeps I f (train_branch E loss)"
  unfolding train_branch_def
  by (rule keeps_seqs) (auto intro!: keeps_ext assms)

lemma keeps_get_bind_gen:
  assumes "\<And>x. keeps (\<lambda>w. I w \<and> P x w) f (k x)" and "\<And>w. I w \<Longrightarrow> P (g w) w"
  shows "keeps I f (bind (get g) k)"
  unfolding keeps_def
proof (intro allI impI)
  fix w assume "I w"
  with assms(1)[of "g w"] assms(2)[of w]
  have "I (snd (k (g w) w)) \<and> f (snd (k (g w) w)) = f w"
    by (simp add: keeps_def)
  then show "I (snd (bind (get g) k w)) \<and> f (snd (bind (get g) k w)) = f w"
    by (simp add: bind_def get_def)
qed

lemma inert_update_at:
  "heap_ok I f \<Longrightarrow> inert (\<lambda>w. I w \<and> live a w) f (update_at v a)"
  by (simp add: heap_ok_def inert_def update_at_def live_def)

lemma inert_reset_at:
  "heap_ok I f \<Longrightarrow> inert (\<lambda>w. I w \<and> live a w) f (reset_at a)"
  by (simp add: heap_ok_def inert_def reset_at_def live_def)

lemma inert_update_at_list:
  "heap_ok I f \<Longrightarrow> a \<in> set ms \<Longrightarrow>
   inert (\<lambda>w. I w \<and> set ms \<subseteq> set (metric_meters w)) f (update_at v a)"
  by (auto simp: heap_ok_def inert_def update_at_def live_def)

lemma inert_reset_at_list:
  "heap_ok I f \<Longrightarrow> a \<in> set ms \<Longrightarrow>
   inert (\<lambda>w. I w \<and> set ms \<subseteq> set (metric_meters w)) f (reset_at a)"
  by (auto simp: heap_ok_def inert_def reset_at_def live_def)

lemma keeps_reset_loss:
  assumes "heap_ok I f"
  shows "keeps I f (bind (get loss_meter) (\<lambda>a. modify (reset_at a)))"
  using assms
  by (simp add: keeps_def bind_def get_def modify_def heap_ok_def reset_at_def live_def)

lemma keeps_reset_metrics:
  assumes h: "heap_ok I f"
  shows "keeps I f (bind (get metric_meters) (\<lambda>ms. seqs (map (\<lambda>m. modify (reset_at m)) ms)))"
proof (rule keeps_get_bind_gen[where P = "\<lambda>ms w. set ms \<subseteq> set (metric_meters w)"])
  fix ms
  show "keeps (\<lambda>w. I w \<and> set ms \<subseteq> set (metric_meters w)) f
          (seqs (map (\<lambda>m. modify (reset_at m)) ms))"
    by (rule keeps_seqs) (auto intro!: keeps_modify inert_reset_at_list[OF h])
qed simp

lemma keeps_update_metrics:
  assumes h: "heap_ok I f"
  shows "keeps I f (bind (get metric_meters) (\<lambda>ms.
           seqs (map (update_metric E out target) (zip (metrics E) ms))))"
proof (rule keeps_get_bind_gen[where P = "\<lambda>ms w. set ms \<subseteq> set (metric_meters w)"])
  fix ms
  have "keeps (\<lambda>w. I w \<and> set ms \<subseteq> set (metric_meters w)) f (update_metric E out target ma)"
    if "ma \<in> set (zip (metrics E) ms)" for ma
  proof -
    obtain metric a where ma: "ma = (metric, a)" by (cases ma)
    with that have "a \<in> set ms" by (auto dest: set_zip_rightD)
    then show ?thesis
      unfolding update_metric_def ma prod.case
      by (intro keeps_bind keeps_lift keeps_modify inert_update_at_list[OF h])
  qed
  then show "keeps (\<lambda>w. I w \<and> set ms \<subseteq> set (metric_meters w)) f
          (seqs (map (update_metric E out target) (zip (metrics E) ms)))"
    by (intro keeps_seqs) auto
qed simp

lemma keeps_update_meters:
  assumes h: "heap_ok I f"
  shows "keeps I f (bind (get loss_meter) (\<lambda>a.
     bind (modify (update_at v a)) (\<lambda>_.
     bind (get metric_meters) (\<lambda>ms.
     seqs (map (update_metric E out target) (zip (metrics E) ms))))))"
proof -
  have 1: "keeps I f (bind (get metric_meters) (\<lambda>ms.
     seqs (map (update_metric E out target) (zip (metrics E) ms))))"
    by (rule keeps_update_metrics[OF h])
  show ?thesis
    unfolding keeps_def
  proof (intro allI impI)
    fix w assume I: "I w"
    let ?w1 = "update_at v (loss_meter w) w"
    from h I have 2: "I ?w1" "f ?w1 = f w"
      by (simp_all add: heap_ok_def update_at_def live_def)
    from 1 2 show "I (snd (bind (get loss_meter) (\<lambda>a.
       bind (modify (update_at v a)) (\<lambda>_.
       bind (get metric_meters) (\<lambda>ms.
       seqs (map (update_metric E out target) (zip (metrics E) ms))))) w)) \<and>
     f (snd (bind (get loss_meter) (\<lambda>a.
       bind (modify (update_at v a)) (\<lambda>_.
       bind (get metric_meters) (\<lambda>ms.
       seqs (map (update_metric E out target) (zip (metrics E) ms))))) w)) = f w"
      by (simp add: keeps_def bind_def[of "get loss_meter"] bind_def[of "modify _"] get_def[of loss_meter] modify_def)
  qed
qed

lemma keeps_get_bind_False:
  "(\<forall>w. I w \<longrightarrow> \<not> g w) \<Longrightarrow> keeps I f (k False) \<Longrightarrow> keeps I f (bind (get g) k)"
  by (simp add: keeps_def bind_def get_def)

lemma plain_inertD:
  assumes "plain I f"
  shows "inert I f (\<lambda>w. w\<lparr>st_input := x\<rparr>)" "inert I f (\<lambda>w. w\<lparr>st_output := y\<rparr>)"
    "inert I f (\<lambda>w. w\<lparr>step := i\<rparr>)"
  using assms by (simp_all add: plain_def)

lemma keeps_make_step:
  assumes p: "plain I f" and h: "heap_ok I f"
    and s: "(\<forall>w. I w \<longrightarrow> \<not> is_train w) \<or> (\<forall>ev. is_step_ev ev \<longrightarrow> quiet I f ev)"
  shows "keeps I f (make_step E b)"
proof -
  obtain images target where b: "b = (images, target)" by (cases b)
  have tail: "keeps I f (bind (lift (to_numpy E loss)) (\<lambda>v.
     bind (get loss_meter) (\<lambda>a.
     bind (modify (update_at v a)) (\<lambda>_.
     bind (get metric_meters) (\<lambda>ms.
     seqs (map (update_metric E out target) (zip (metrics E) ms)))))))" for loss out
    by (rule keeps_bind[OF keeps_lift]) (rule keeps_update_meters[OF h])
  have mid: "keeps I f (bind (get is_train) (\<lambda>t.
     bind (if t then train_branch E loss else ret ()) (\<lambda>_.
     bind (lift (to_numpy E loss)) (\<lambda>v.
     bind (get loss_meter) (\<lambda>a.
     bind (modify (update_at v a)) (\<lambda>_.
     bind (get metric_meters) (\<lambda>ms.
     seqs (map (update_metric E out target) (zip (metrics E) ms)))))))))" for loss out
    using s
  proof
    assume n: "\<forall>w. I w \<longrightarrow> \<not> is_train w"
    show ?thesis
      by (rule keeps_get_bind_False[OF n]) (simp add: keeps_bind[OF keeps_ret tail])
  next
    assume "\<forall>ev. is_step_ev ev \<longrightarrow> quiet I f ev"
    then have "keeps I f (if t then train_branch E loss else ret ())" for t
      using p by (simp add: keeps_train_branch keeps_ret)
    then show ?thesis
      by (intro keeps_bind[OF keeps_get] keeps_bind[OF _ tail])
  qed
  show ?thesis
    unfolding make_step_def b prod.case
    apply (rule keeps_bind[OF keeps_modify[OF plain_inertD(1)[OF p]]])
    apply (rule keeps_bind[OF keeps_get])
    apply (rule keeps_bind[OF keeps_lift])
    apply (rule keeps_bind[OF keeps_modify[OF plain_inertD(2)[OF p]]])
    apply (rule keeps_bind[OF keeps_lift])
    apply (rule mid)
    done
qed

lemma keeps_batch_body:
  assumes p: "plain I f" and h: "heap_ok I f"
    and s: "(\<forall>w. I w \<longrightarrow> \<not> is_train w) \<or> (\<forall>ev. is_step_ev ev \<longrightarrow> quiet I f ev)"
    and q: "\<And>ev. \<not> is_step_ev ev \<Longrightarrow> quiet I f ev"
    and k: "hooks_keep I f E"
  shows "keeps I f (batch_body E ib)"
proof -
  obtain i b where ib: "ib = (i, b)" by (cases ib)
  have "keeps I f (bind (get verbose) (\<lambda>v.
             if v then bind (get desc) (\<lambda>d. log (SetPostfix d)) else ret ()))"
    by (intro keeps_bind keeps_get) (simp add: keeps_ret keeps_bind keeps_get keeps_log q)
  then show ?thesis
    unfolding batch_body_def ib prod.case
    by (intro keeps_seqs)
      (auto intro!: keeps_modify plain_inertD[OF p] keeps_emit q k keeps_make_step[OF p h s])
qed

lemma keeps_with_set_grad_enabled:
  assumes "plain I f" and "keeps I f m"
  shows "keeps I f (with_set_grad_enabled b m)"
  unfolding keeps_def
proof (intro allI impI)
  fix w assume I: "I w"
  let ?w1 = "w\<lparr>grad_enabled := b\<rparr>"
  from assms(1) I have 1: "I ?w1" "f ?w1 = f w" by (simp_all add: plain_def inert_def)
  obtain r w2 where m: "m ?w1 = (r, w2)" by (cases "m ?w1")
  with assms(2) 1 have 2: "I w2" "f w2 = f w" by (auto simp: keeps_def dest!: spec[of _ ?w1])
  with assms(1) have "I (w2\<lparr>grad_enabled := grad_enabled w\<rparr>)"
    "f (w2\<lparr>grad_enabled := grad_enabled w\<rparr>) = f w" by (simp_all add: plain_def inert_def)
  then show "I (snd (with_set_grad_enabled b m w)) \<and> f (snd (with_set_grad_enabled b m w)) = f w"
    by (simp add: with_set_grad_enabled_def m)
qed

lemma keeps_make_pbar:
  "keeps I f make_pbar"
  unfolding make_pbar_def hasattr1_def
  by (intro keeps_bind keeps_get) (simp add: keeps_def bind_def lift_def ret_def)

lemma keeps_run_one_epoch:
  assumes p: "plain I f" and h: "heap_ok I f"
    and s: "(\<forall>w. I w \<longrightarrow> \<not> is_train w) \<or> (\<forall>ev. is_step_ev ev \<longrightarrow> quiet I f ev)"
    and q: "\<And>ev. \<not> is_step_ev ev \<Longrightarrow> quiet I f ev"
    and e: "\<And>n. inert I f (\<lambda>w. w\<lparr>ep_size := n\<rparr>)"
    and k: "hooks_keep I f E"
  shows "keeps I f (run_one_epoch E loader steps)"
proof -
  have 2: "keeps I f (seqs (map (batch_body E) ibs))" for ibs
    by (rule keeps_seqs) (auto intro!: keeps_batch_body p h s q k)
  have 3: "keeps I f (bind (get is_train) (\<lambda>t.
             with_set_grad_enabled t (seqs (map (batch_body E) (enumerate 0 (batches loader))))))"
    by (intro keeps_bind keeps_get keeps_with_set_grad_enabled[OF p] 2)
  have 4: "keeps I f (bind (lift (steps_or_len steps loader)) (\<lambda>n. modify (\<lambda>w. w\<lparr>ep_size := n\<rparr>)))"
    by (intro keeps_bind keeps_lift keeps_modify e)
  show ?thesis
    unfolding run_one_epoch_def
    by (intro keeps_seqs)
      (auto intro!: keeps_log q 3 4 keeps_reset_loss[OF h] keeps_reset_metrics[OF h] keeps_make_pbar)
qed




lemma seqs_modify:
  "seqs (map (\<lambda>m. modify (g m)) ms) w = (Inr (), foldl (\<lambda>w m. g m w) w ms)"
  by (induction ms arbitrary: w) (simp_all add: modify_def)

lemma act_case_id:
  "(case p of (Inl e, w') \<Rightarrow> (Inl e, w') | (Inr (x::unit), w') \<Rightarrow> (Inr (), w')) = p"
  by (auto split: prod.splits sum.splits)

lemma seqs_Nil_eq: "seqs [] = (\<lambda>w. (Inr (), w))"
  by (rule ext) simp

lemma seqs_single: "seqs [m] w = m w"
  by (cases "m w") (auto split: sum.splits)

lemma reset_at_fields [simp]:
  "verbose (reset_at a w) = verbose w"
  "is_train (reset_at a w) = is_train w"
  "trace (reset_at a w) = trace w"
  "ep_size (reset_at a w) = ep_size w"
  "metric_meters (reset_at a w) = metric_meters w"
  "loss_meter (reset_at a w) = loss_meter w"
  by (simp_all add: reset_at_def)

lemma foldl_reset_at_fields:
  "verbose (foldl (\<lambda>w m. reset_at m w) w ms) = verbose w"
  "is_train (foldl (\<lambda>w m. reset_at m w) w ms) = is_train w"
  "trace (foldl (\<lambda>w m. reset_at m w) w ms) = trace w"
  "ep_size (foldl (\<lambda>w m. reset_at m w) w ms) = ep_size w"
  "metric_meters (foldl (\<lambda>w m. reset_at m w) w ms) = metric_meters w"
  by (induction ms arbitrary: w) simp_all

lemma reset_all_fields [simp]:
  "verbose (reset_all w) = verbose w"
  "is_train (reset_all w) = is_train w"
  "trace (reset_all w) = trace w @ [TimerReset]"
  "ep_size (reset_all w) = ep_size w"
  by (simp_all add: reset_all_def foldl_reset_at_fields)

lemma run_one_epoch_unfold:
  "run_one_epoch E loader steps w =
     (case steps_or_len steps loader of
        Inl e \<Rightarrow> (Inl e, reset_all w)
      | Inr n \<Rightarrow>
          if verbose w then (Inl TypeError, (reset_all w)\<lparr>ep_size := n\<rparr>)
          else with_set_grad_enabled (is_train w) (batch_loop E loader)
                 ((reset_all w)\<lparr>ep_size := n\<rparr>))"
proof -
  let ?w1 = "reset_at (loss_meter w) w"
  let ?w2 = "?w1\<lparr>trace := trace w @ [TimerReset]\<rparr>"
  have 1: "bind (get loss_meter) (\<lambda>a. modify (reset_at a)) w = (Inr (), ?w1)"
    by (simp add: bind_def get_def modify_def)
  have 2: "log TimerReset ?w1 = (Inr (), ?w2)"
    by (simp add: log_def)
  have 3: "bind (get metric_meters) (\<lambda>ms. seqs (map (\<lambda>m. modify (reset_at m)) ms)) ?w2
             = (Inr (), reset_all w)"
    by (simp add: bind_def get_def seqs_modify reset_all_def)
  have 4: "make_pbar w' = (if verbose w' then (Inl TypeError, w') else (Inr (), w'))" for w' :: "('p, 'x) world"
    by (simp add: make_pbar_def hasattr1_def bind_def get_def lift_def ret_def)
  let ?loop = "bind (get is_train) (\<lambda>t.
             with_set_grad_enabled t (seqs (map (batch_body E) (enumerate 0 (batches loader)))))"
  have 5: "run_one_epoch E loader steps w =
      seqs [bind (lift (steps_or_len steps loader)) (\<lambda>n. modify (\<lambda>w. w\<lparr>ep_size := n\<rparr>)),
            make_pbar, ?loop] (reset_all w)"
    by (simp add: run_one_epoch_def 1 2 3)
  show ?thesis
  proof (cases "steps_or_len steps loader")
    case (Inl e)
    then show ?thesis by (simp add: 5 bind_def lift_def)
  next
    case (Inr n)
    let ?w4 = "(reset_all w)\<lparr>ep_size := n\<rparr>"
    have 6: "run_one_epoch E loader steps w = seqs [make_pbar, ?loop] ?w4"
      using Inr by (simp add: 5 bind_def lift_def modify_def)
    show ?thesis
    proof (cases "verbose w")
      case True
      then show ?thesis using Inr by (simp add: 6 4)
    next
      case False
      then have "run_one_epoch E loader steps w = seqs [?loop] ?w4"
        by (simp add: 6 4)
      also have "\<dots> = ?loop ?w4" by (rule seqs_single)
      finally show ?thesis using Inr False
        by (simp add: bind_def get_def batch_loop_def)
    qed
  qed
qed

lemma evaluate_unfold:
  "evaluate E loader steps w =
     (case run_one_epoch E loader steps (w\<lparr>is_train := False, training := False\<rparr>) of
        (Inl e, w') \<Rightarrow> (Inl e, w')
      | (Inr _, w') \<Rightarrow>
          (Inr (avg (heap w' (loss_meter w')), map (\<lambda>m. avg (heap w' m)) (metric_meters w')), w'))"
proof -
  let ?w = "w\<lparr>is_train := False, training := False\<rparr>"
  have "seqs [modify (\<lambda>w. w\<lparr>is_train := False\<rparr>), modify (\<lambda>w. w\<lparr>training := False\<rparr>),
              run_one_epoch E loader steps] w = seqs [run_one_epoch E loader steps] ?w"
    by (simp add: modify_def)
  also have "\<dots> = run_one_epoch E loader steps ?w"
    by (rule seqs_single)
  finally show ?thesis
    by (cases "run_one_epoch E loader steps ?w")
      (simp add: evaluate_def bind_def get_def split: sum.splits)
qed

lemma snd_evaluate:
  "snd (evaluate E loader steps w) =
     snd (run_one_epoch E loader steps (w\<lparr>is_train := False, training := False\<rparr>))"
  by (simp add: evaluate_unfold split: prod.splits sum.splits)

lemma optimizer_calls_append [simp]:
  "optimizer_calls (xs @ ys) = optimizer_calls xs @ optimizer_calls ys"
  by (simp add: optimizer_calls_def)

lemma keeps_eval_optimizer_calls:
  assumes k: "hooks_keep (\<lambda>w. \<not> is_train w) (\<lambda>_. ()) E"
  shows "keeps (\<lambda>w. \<not> is_train w) (\<lambda>w. optimizer_calls (trace w)) (run_one_epoch E loader steps)"
proof (rule keeps_run_one_epoch)
  show "hooks_keep (\<lambda>w. \<not> is_train w) (\<lambda>w. optimizer_calls (trace w)) E"
    using k by (rule hooks_keep_trace)
  show "plain (\<lambda>w. \<not> is_train w) (\<lambda>w. optimizer_calls (trace w))"
    by (simp add: plain_def inert_def)
  show "heap_ok (\<lambda>w. \<not> is_train w) (\<lambda>w. optimizer_calls (trace w))"
    by (simp add: heap_ok_def)
  show "(\<forall>w. \<not> is_train w \<longrightarrow> \<not> is_train w) \<or>
        (\<forall>ev. is_step_ev ev \<longrightarrow> quiet (\<lambda>w. \<not> is_train w) (\<lambda>w. optimizer_calls (trace w)) ev)"
    by simp
  show "quiet (\<lambda>w. \<not> is_train w) (\<lambda>w. optimizer_calls (trace w)) ev" if "\<not> is_step_ev ev" for ev
    using that by (cases ev) (simp_all add: quiet_def inert_def optimizer_calls_def)
  show "inert (\<lambda>w. \<not> is_train w) (\<lambda>w. optimizer_calls (trace w)) (\<lambda>w. w\<lparr>ep_size := n\<rparr>)" for n
    by (simp add: inert_def)
qed

lemma keeps_eval_step_trace:
  "keeps (\<lambda>w. \<not> is_train w) trace (make_step E b)"
  by (rule keeps_make_step) (simp_all add: plain_def inert_def heap_ok_def)

section \<open>Claims\<close>

text \<open>
  C5, as amended. As long as no hook sets \<^verbatim>\<open>is_train\<close>, \<^verbatim>\<open>evaluate\<close> never invokes the
  optimizer's gradient clear or update step, whatever the data source and the step cap:
  the optimizer calls recorded after the call are those recorded before it. The training
  branch of a step is not entered while \<^verbatim>\<open>is_train\<close> is false: such a step records no call
  at all.
\<close>

theorem evaluate_never_steps_optimizer:
  "(hooks_keep (\<lambda>w. \<not> is_train w) (\<lambda>_. ()) E \<longrightarrow>
      optimizer_calls (trace (snd (evaluate E loader steps w))) = optimizer_calls (trace w))
   \<and> (\<not> is_train w \<longrightarrow> trace (snd (make_step E batch w)) = trace w)"
proof (intro conjI impI)
  assume k: "hooks_keep (\<lambda>w. \<not> is_train w) (\<lambda>_. ()) E"
  let ?w = "w\<lparr>is_train := False, training := False\<rparr>"
  have "optimizer_calls (trace (snd (run_one_epoch E loader steps ?w))) = optimizer_calls (trace ?w)"
    using keeps_eval_optimizer_calls[OF k, of loader steps] by (simp add: keeps_def)
  then show "optimizer_calls (trace (snd (evaluate E loader steps w))) = optimizer_calls (trace w)"
    by (simp add: snd_evaluate)
next
  assume "\<not> is_train w"
  then show "trace (snd (make_step E batch w)) = trace w"
    using keeps_eval_step_trace[of E batch] by (simp add: keeps_def)
qed

theorem evaluate_never_steps_optimizer_witness:
  "optimizer_calls (trace (snd (evaluate env_forget loader2 None (w0 False)))) = []
   \<and> trace (snd (make_step env_forget (1, 0) (w0 False))) = []"
proof -
  have "hooks_keep (\<lambda>w. \<not> is_train w) (\<lambda>_. ()) env_forget"
    by (simp add: hooks_keep_def env_forget_def env0_def forget_output_def keeps_def run_hook_def
        modify_def)
  then show ?thesis
    using evaluate_never_steps_optimizer[of env_forget loader2 None "w0 False" "(1, 0)"]
    by (simp add: w0_def optimizer_calls_def)
qed

text \<open>
  C5 as stated fails when a callback writes the flag: with a hook of \<^verbatim>\<open>on_batch_begin\<close> that
  sets \<^verbatim>\<open>is_train\<close>, the step that follows reads the flag as true, so \<^verbatim>\<open>evaluate\<close> on two
  batches clears the gradients and steps the optimizer twice.
\<close>

theorem hook_sets_is_train_counterexample:
  "optimizer_calls (trace (snd (evaluate env_flip loader2 None (w0 False))))
     = [ZeroGrad, OptStep, ZeroGrad, OptStep]"
  by code_simp

text \<open>
  C10. \<^verbatim>\<open>UnetCenterBlock.forward\<close> returns \<^verbatim>\<open>None\<close> whenever the wrapped block returns: the
  block's result is discarded. So in a decoder built with a centre block the first layer
  receives \<^verbatim>\<open>None\<close> in place of the processed encoder head, next to the first skip.
\<close>

theorem center_block_returns_none:
  "(block x = Inr y \<longrightarrow> unet_center_block_forward block x = Inr PyNone)
   \<and> (center D = Some block \<and> block (Tensor h) = Inr y
        \<longrightarrow> layer1_args D (h # s # rest) = Inr [PyNone, Tensor s])"
  by (simp add: unet_center_block_forward_def layer1_args_def ebind_def py_index_def)

theorem center_block_returns_none_witness:
  "unet_center_block_forward (the (center decoder0)) (Tensor 5) = Inr PyNone
   \<and> layer1_args decoder0 [5, 7, 8, 9, 10] = Inr [PyNone, Tensor 7]"
  using center_block_returns_none[of "the (center decoder0)" "Tensor 5" 6 decoder0 5 7 "[8, 9, 10]"]
  by (simp add: decoder0_def)

lemma foldl_reset_at_frame:
  "\<exists>h. foldl (\<lambda>w m. reset_at m w) w ms = w\<lparr>heap := h\<rparr>"
proof (induction ms arbitrary: w)
  case Nil
  show ?case by (rule exI[of _ "heap w"]) simp
next
  case (Cons m ms)
  obtain h where "foldl (\<lambda>w m. reset_at m w) (reset_at m w) ms = (reset_at m w)\<lparr>heap := h\<rparr>"
    using Cons.IH by blast
  then have "foldl (\<lambda>w m. reset_at m w) w (m # ms) = w\<lparr>heap := h\<rparr>"
    by (simp add: reset_at_def)
  then show ?case by blast
qed

lemma reset_all_frame:
  "\<exists>h. reset_all w = w\<lparr>heap := h, trace := trace w @ [TimerReset]\<rparr>"
proof -
  let ?w = "(reset_at (loss_meter w) w)\<lparr>trace := trace w @ [TimerReset]\<rparr>"
  obtain h where "foldl (\<lambda>w m. reset_at m w) ?w (metric_meters w) = ?w\<lparr>heap := h\<rparr>"
    using foldl_reset_at_frame by blast
  then have "reset_all w = w\<lparr>heap := h, trace := trace w @ [TimerReset]\<rparr>"
    by (simp add: reset_all_def reset_at_def)
  then show ?thesis by blast
qed

lemma keeps_batch_loop:
  assumes "plain I f" and "heap_ok I f"
    and "(\<forall>w. I w \<longrightarrow> \<not> is_train w) \<or> (\<forall>ev. is_step_ev ev \<longrightarrow> quiet I f ev)"
    and "\<And>ev. \<not> is_step_ev ev \<Longrightarrow> quiet I f ev"
    and "hooks_keep I f E"
  shows "keeps I f (batch_loop E loader)"
  unfolding batch_loop_def
  by (rule keeps_seqs) (auto intro!: keeps_batch_body assms)

lemma steps_or_len_cases:
  "steps_or_len steps loader =
     (case steps of
        Some n \<Rightarrow> if n \<noteq> 0 then Inr n
                  else (case len loader of Some l \<Rightarrow> Inr (int l) | None \<Rightarrow> Inl TypeError)
      | None \<Rightarrow> (case len loader of Some l \<Rightarrow> Inr (int l) | None \<Rightarrow> Inl TypeError))"
  by (simp add: steps_or_len_def py_len_def split: option.splits)

lemma run_one_epoch_ep_size:
  assumes k: "hooks_keep (\<lambda>_. True) ep_size E"
  shows "ep_size (snd (run_one_epoch E loader steps w)) =
     (case steps_or_len steps loader of Inl e \<Rightarrow> ep_size w | Inr n \<Rightarrow> n)"
proof (cases "steps_or_len steps loader")
  case (Inl e)
  then show ?thesis by (simp add: run_one_epoch_unfold)
next
  case (Inr n)
  let ?w = "(reset_all w)\<lparr>ep_size := n\<rparr>"
  have "keeps (\<lambda>_. True) ep_size (with_set_grad_enabled (is_train w) (batch_loop E loader))"
    by (intro keeps_with_set_grad_enabled keeps_batch_loop k)
      (simp_all add: plain_def inert_def heap_ok_def quiet_def)
  then have "ep_size (snd (with_set_grad_enabled (is_train w) (batch_loop E loader) ?w)) = n"
    by (simp add: keeps_def)
  then show ?thesis using Inr by (simp add: run_one_epoch_unfold)
qed

text \<open>
  C3, as amended. After a call of the inner epoch loop in which no hook overwrote it,
  \<^verbatim>\<open>ep_size\<close> is the explicit step count when one is given and is not zero; otherwise (no
  count, or the count zero) it is the length of the source, and when the source has no
  length the call raises and \<^verbatim>\<open>ep_size\<close> keeps its old value.
\<close>

theorem ep_size_is_steps_or_len:
  "hooks_keep (\<lambda>_. True) ep_size E \<longrightarrow>
   ep_size (snd (run_one_epoch E loader steps w)) =
     (case steps of
        Some n \<Rightarrow> if n \<noteq> 0 then n
                  else (case len loader of Some l \<Rightarrow> int l | None \<Rightarrow> ep_size w)
      | None \<Rightarrow> (case len loader of Some l \<Rightarrow> int l | None \<Rightarrow> ep_size w))"
  by (simp add: run_one_epoch_ep_size steps_or_len_cases split: option.splits)

theorem ep_size_is_steps_or_len_witness:
  "ep_size (snd (run_one_epoch env0 loader2 (Some 5) (w0 False))) = 5
   \<and> ep_size (snd (run_one_epoch env0 loader2 None (w0 False))) = 2
   \<and> ep_size (snd (run_one_epoch env0 stream2 None (w0 False))) = 0"
  using ep_size_is_steps_or_len[of env0 loader2 "Some 5" "w0 False"]
    ep_size_is_steps_or_len[of env0 loader2 None "w0 False"]
    ep_size_is_steps_or_len[of env0 stream2 None "w0 False"]
  by (simp add: loader2_def stream2_def w0_def hooks_keep_def env0_def)

text \<open>
  C3 as stated fails for an explicit step count of zero: \<^verbatim>\<open>0 or len(loader)\<close> is the
  length, so a two-batch source gives an epoch size of two, not zero.
\<close>

theorem explicit_zero_steps_counterexample:
  "ep_size (snd (run_one_epoch env0 loader2 (Some 0) (w0 False))) \<noteq> 0"
  by (simp add: run_one_epoch_ep_size steps_or_len_cases loader2_def hooks_keep_def env0_def)

text \<open>
  C2. With verbose mode on, the inner epoch loop does not reach its first batch: once the
  meters are reset and the epoch size is set, building the progress bar raises
  \<^verbatim>\<open>TypeError\<close> (\<^verbatim>\<open>hasattr\<close> called with one argument). No batch is processed and no
  progress line is shown, where the claim has every batch processed as with verbose off.
\<close>

theorem verbose_epoch_raises:
  "verbose w \<and> steps_or_len steps loader = Inr n \<longrightarrow>
     fst (run_one_epoch E loader steps w) = Inl TypeError
     \<and> trace (snd (run_one_epoch E loader steps w)) = trace w @ [TimerReset]
     \<and> st_input (snd (run_one_epoch E loader steps w)) = st_input w"
proof -
  obtain h where "reset_all w = w\<lparr>heap := h, trace := trace w @ [TimerReset]\<rparr>"
    using reset_all_frame by blast
  then show ?thesis by (simp add: run_one_epoch_unfold)
qed

theorem verbose_epoch_raises_witness:
  "fst (run_one_epoch env0 loader2 None (w0 True)) = Inl TypeError
   \<and> trace (snd (run_one_epoch env0 loader2 None (w0 True))) = [TimerReset]
   \<and> st_input (snd (run_one_epoch env0 loader2 None (w0 True))) = None"
  using verbose_epoch_raises[of "w0 True" None loader2 2 env0]
  by (simp add: w0_def loader2_def steps_or_len_cases)



lemma modify_fst [simp]: "fst (modify g w) = Inr ()"
  by (simp add: modify_def)

lemma modify_snd [simp]: "snd (modify g w) = g w"
  by (simp add: modify_def)

lemma call_hooks_pass:
  "(\<forall>cb \<in> set cbs. \<forall>f w. cb h = Some f \<longrightarrow> fst (f w) = Inr ()) \<Longrightarrow>
   fst (call_hooks h k cbs w) = Inr ()"
proof (induction cbs arbitrary: k w)
  case Nil
  show ?case by simp
next
  case (Cons cb cbs)
  show ?case
  proof (cases "cb h")
    case None
    then show ?thesis using Cons by simp
  next
    case (Some f)
    let ?w1 = "w\<lparr>trace := trace w @ [Call k h]\<rparr>"
    have "fst (f ?w1) = Inr ()" using Some Cons.prems by simp
    then obtain w2 where "run_hook f ?w1 = (Inr (), w2)"
      by (cases "f ?w1") (simp add: run_hook_def)
    then show ?thesis using Some Cons by simp
  qed
qed

lemma emit_pass: "hooks_pass E h \<Longrightarrow> fst (emit E h w) = Inr ()"
  by (simp add: emit_def hooks_pass_def call_hooks_pass)



lemma reset_all_st_input [simp]: "st_input (reset_all w) = st_input w"
proof -
  obtain h where "reset_all w = w\<lparr>heap := h, trace := trace w @ [TimerReset]\<rparr>"
    using reset_all_frame by blast
  then show ?thesis by simp
qed

lemma batch_begins_snoc [simp]:
  "batch_begins (tr @ [ev]) =
     batch_begins tr + (case ev of Emit h _ _ _ \<Rightarrow> if h = OnBatchBegin then 1 else 0 | _ \<Rightarrow> 0)"
  by (cases ev) (simp_all add: batch_begins_def)








text \<open>
  C8. \<^verbatim>\<open>evaluate\<close> clears \<^verbatim>\<open>is_train\<close> and puts the model in evaluation mode before the inner
  loop, but with verbose mode on (the default of \<^verbatim>\<open>Runner\<close>) the inner loop raises
  \<^verbatim>\<open>TypeError\<close> before its first batch, so the call returns no pair of averages.
\<close>

theorem evaluate_verbose_raises:
  "verbose w \<and> steps_or_len steps loader = Inr n \<longrightarrow>
     fst (evaluate E loader steps w) = Inl TypeError
     \<and> \<not> is_train (snd (evaluate E loader steps w))
     \<and> \<not> training (snd (evaluate E loader steps w))
     \<and> batch_begins (trace (snd (evaluate E loader steps w))) = batch_begins (trace w)"
proof
  assume a: "verbose w \<and> steps_or_len steps loader = Inr n"
  let ?w = "w\<lparr>is_train := False, training := False\<rparr>"
  obtain h where h: "reset_all ?w = ?w\<lparr>heap := h, trace := trace ?w @ [TimerReset]\<rparr>"
    using reset_all_frame by blast
  have "run_one_epoch E loader steps ?w = (Inl TypeError, (reset_all ?w)\<lparr>ep_size := n\<rparr>)"
    using a by (simp add: run_one_epoch_unfold)
  then have "evaluate E loader steps w = (Inl TypeError, (reset_all ?w)\<lparr>ep_size := n\<rparr>)"
    by (simp add: evaluate_unfold)
  then show "fst (evaluate E loader steps w) = Inl TypeError
     \<and> \<not> is_train (snd (evaluate E loader steps w))
     \<and> \<not> training (snd (evaluate E loader steps w))
     \<and> batch_begins (trace (snd (evaluate E loader steps w))) = batch_begins (trace w)"
    by (simp add: h)
qed

theorem evaluate_verbose_raises_witness:
  "fst (evaluate env0 loader2 None (w0 True)) = Inl TypeError
   \<and> \<not> is_train (snd (evaluate env0 loader2 None (w0 True)))
   \<and> \<not> training (snd (evaluate env0 loader2 None (w0 True)))
   \<and> batch_begins (trace (snd (evaluate env0 loader2 None (w0 True)))) = 0"
  using evaluate_verbose_raises[of "w0 True" None loader2 2 env0]
  by (simp add: w0_def loader2_def steps_or_len_cases batch_begins_def)

text \<open>
  C7. With verbose mode on (the default of \<^verbatim>\<open>Runner\<close>), \<^verbatim>\<open>fit\<close> over two epochs raises
  \<^verbatim>\<open>TypeError\<close> in its first inner loop: callbacks see \<^verbatim>\<open>on_train_begin\<close> and the epoch index 0
  only, never the index 1, \<^verbatim>\<open>on_epoch_end\<close> or \<^verbatim>\<open>on_train_end\<close>.
\<close>

theorem fit_verbose_stops_in_first_epoch:
  "fst (fit env0 loader2 None None None 2 0 (w0 True)) = Inl TypeError
   \<and> trace (snd (fit env0 loader2 None None None 2 0 (w0 True)))
       = [Emit OnTrainBegin 0 False 0, Emit OnEpochBegin 0 True 0, TimerReset]"
  by code_simp

lemma hooks_of_append [simp]: "hooks_of (xs @ ys) = hooks_of xs @ hooks_of ys"
  by (induction xs rule: hooks_of.induct) simp_all

lemma growsI:
  "(\<And>w r w'. m w = (Inr r, w') \<Longrightarrow> hooks_of (trace w') = hooks_of (trace w) @ xs) \<Longrightarrow> grows xs m"
  by (simp add: grows_def)

lemma growsD:
  "grows xs m \<Longrightarrow> m w = (Inr r, w') \<Longrightarrow> hooks_of (trace w') = hooks_of (trace w) @ xs"
  by (simp add: grows_def)

lemma grows_keeps:
  "keeps (\<lambda>_. True) (\<lambda>w. hooks_of (trace w)) m \<Longrightarrow> grows [] m"
proof (rule growsI)
  fix w r w' assume k: "keeps (\<lambda>_. True) (\<lambda>w. hooks_of (trace w)) m" and m: "m w = (Inr r, w')"
  from k have "hooks_of (trace (snd (m w))) = hooks_of (trace w)" by (simp add: keeps_def)
  with m show "hooks_of (trace w') = hooks_of (trace w) @ []" by simp
qed

lemma grows_seqs_Nil: "grows [] (seqs [])"
  by (simp add: grows_def)

lemma grows_seqs_Cons:
  assumes "grows xs m" and "grows ys (seqs ms)"
  shows "grows (xs @ ys) (seqs (m # ms))"
proof (rule growsI)
  fix w r w' assume a: "seqs (m # ms) w = (Inr r, w')"
  obtain r1 w1 where m: "m w = (r1, w1)" by (cases "m w")
  with a obtain u where r1: "r1 = Inr u" and s: "seqs ms w1 = (Inr r, w')"
    by (cases r1) auto
  from growsD[OF assms(1)] m r1 have "hooks_of (trace w1) = hooks_of (trace w) @ xs" by simp
  moreover from growsD[OF assms(2) s] have "hooks_of (trace w') = hooks_of (trace w1) @ ys" .
  ultimately show "hooks_of (trace w') = hooks_of (trace w) @ xs @ ys" by simp
qed

lemma grows_seqs_map:
  assumes "\<And>x. x \<in> set xs \<Longrightarrow> grows ys (g x)"
  shows "grows (concat (replicate (length xs) ys)) (seqs (map g xs))"
  using assms
proof (induction xs)
  case Nil
  show ?case by (simp add: grows_def)
next
  case (Cons x xs)
  have "grows (ys @ concat (replicate (length xs) ys)) (seqs (g x # map g xs))"
    by (rule grows_seqs_Cons) (simp_all add: Cons del: seqs.simps)
  then show ?case by (simp del: seqs.simps)
qed

lemma grows_modify: "(\<And>w. trace (g w) = trace w) \<Longrightarrow> grows [] (modify g)"
  by (simp add: grows_def modify_def)

lemma keeps_hooks_call_hooks:
  "keeps (\<lambda>_. True) (\<lambda>w. hooks_of (trace w)) (call_hooks h k cbs)"
  by (rule keeps_call_hooks)
    (auto simp: quiet_def inert_def keeps_def run_hook_def split: prod.splits)

lemma grows_emit: "grows [h] (emit E h)"
proof (rule growsI)
  fix w r w' assume a: "emit E h w = (Inr r, w')"
  let ?w1 = "w\<lparr>trace := trace w @ [Emit h (epoch w) (is_train w) (step w)]\<rparr>"
  have "hooks_of (trace (snd (call_hooks h 0 (callbacks E) ?w1))) = hooks_of (trace ?w1)"
    using keeps_hooks_call_hooks[of h 0 "callbacks E"] by (simp add: keeps_def)
  with a show "hooks_of (trace w') = hooks_of (trace w) @ [h]"
    by (simp add: emit_def)
qed

lemma keeps_hooks_make_step:
  "keeps (\<lambda>_. True) (\<lambda>w. hooks_of (trace w)) (make_step E b)"
proof (rule keeps_make_step)
  show "(\<forall>w::('a, 'b) world. True \<longrightarrow> \<not> is_train w) \<or>
    (\<forall>ev. is_step_ev ev \<longrightarrow> quiet (\<lambda>_::('a, 'b) world. True) (\<lambda>w. hooks_of (trace w)) ev)"
  proof (intro disjI2 allI impI)
    fix ev assume "is_step_ev ev"
    then show "quiet (\<lambda>_::('a, 'b) world. True) (\<lambda>w. hooks_of (trace w)) ev"
      by (cases ev) (simp_all add: quiet_def inert_def)
  qed
qed (simp_all add: plain_def inert_def heap_ok_def)

lemma grows_batch_body: "grows [OnBatchBegin, OnBatchEnd] (batch_body E ib)"
proof -
  obtain i b where ib: "ib = (i, b)" by (cases ib)
  have v: "grows [] (bind (get verbose) (\<lambda>v.
             if v then bind (get desc) (\<lambda>d. log (SetPostfix d)) else ret ()))"
    by (rule grows_keeps)
      (auto intro!: keeps_bind keeps_get keeps_log keeps_ret simp: quiet_def inert_def)
  have "grows ([] @ [OnBatchBegin] @ [] @ [] @ [OnBatchEnd] @ [])
     (seqs [modify (\<lambda>w. w\<lparr>step := i\<rparr>), emit E OnBatchBegin, make_step E b,
        bind (get verbose) (\<lambda>v. if v then bind (get desc) (\<lambda>d. log (SetPostfix d)) else ret ()),
        emit E OnBatchEnd])"
    by (intro grows_seqs_Cons grows_seqs_Nil grows_emit v grows_modify
          grows_keeps[OF keeps_hooks_make_step]) simp
  then show ?thesis by (simp add: batch_body_def ib del: seqs.simps)
qed

lemma grows_batch_loop: "grows (pass_hooks loader) (batch_loop E loader)"
  unfolding batch_loop_def pass_hooks_def
  using grows_seqs_map[of "enumerate 0 (batches loader)" "[OnBatchBegin, OnBatchEnd]" "batch_body E"]
  by (simp add: grows_batch_body del: seqs.simps)

lemma reset_all_hooks [simp]: "hooks_of (trace (reset_all w)) = hooks_of (trace w)"
  by simp

lemma grows_run_one_epoch: "grows (pass_hooks loader) (run_one_epoch E loader steps)"
proof (rule growsI)
  fix w r w' assume a: "run_one_epoch E loader steps w = (Inr r, w')"
  then obtain n where n: "steps_or_len steps loader = Inr n" and v: "\<not> verbose w"
    by (auto simp: run_one_epoch_unfold split: sum.splits if_splits)
  let ?w1 = "(reset_all w)\<lparr>ep_size := n, grad_enabled := is_train w\<rparr>"
  obtain w2 where l: "batch_loop E loader ?w1 = (Inr r, w2)" and w': "w' = w2\<lparr>grad_enabled := grad_enabled (reset_all w)\<rparr>"
    using a n v
    by (cases "batch_loop E loader ?w1")
      (auto simp: run_one_epoch_unfold with_set_grad_enabled_def)
  from growsD[OF grows_batch_loop l] w'
  show "hooks_of (trace w') = hooks_of (trace w) @ pass_hooks loader" by simp
qed

lemma copy_all_frame:
  "\<exists>h ns. copy_all as w = (ns, w\<lparr>heap := h, next_addr := next_addr w + length as\<rparr>)
       \<and> length ns = length as
       \<and> (\<forall>i < length as. ns ! i = next_addr w + i)
       \<and> (\<forall>a < next_addr w. h a = heap w a)
       \<and> (\<forall>i < length as. as ! i < next_addr w \<longrightarrow> h (next_addr w + i) = heap w (as ! i))"
proof (induction as arbitrary: w)
  case Nil
  show ?case by (rule exI[of _ "heap w"]) simp
next
  case (Cons a as)
  let ?n = "next_addr w"
  let ?w1 = "w\<lparr>heap := (heap w)(?n := heap w a), next_addr := Suc ?n\<rparr>"
  obtain h ns where h: "copy_all as ?w1 =
          (ns, ?w1\<lparr>heap := h, next_addr := next_addr ?w1 + length as\<rparr>)"
    and len: "length ns = length as"
    and idx: "\<forall>i < length as. ns ! i = next_addr ?w1 + i"
    and old: "\<forall>a < next_addr ?w1. h a = heap ?w1 a"
    and new: "\<forall>i < length as. as ! i < next_addr ?w1 \<longrightarrow> h (next_addr ?w1 + i) = heap ?w1 (as ! i)"
    using Cons.IH[of ?w1] by blast
  have 1: "copy_all (a # as) w =
         (?n # ns, w\<lparr>heap := h, next_addr := ?n + length (a # as)\<rparr>)"
    using h by (simp add: copy_def)
  have 2: "\<forall>b < ?n. h b = heap w b"
    using old by simp
  have 3: "\<forall>i < length (a # as). (a # as) ! i < ?n \<longrightarrow> h (?n + i) = heap w ((a # as) ! i)"
  proof (intro allI impI)
    fix i assume i: "i < length (a # as)" and lt: "(a # as) ! i < ?n"
    show "h (?n + i) = heap w ((a # as) ! i)"
    proof (cases i)
      case 0
      then show ?thesis using old by simp
    next
      case (Suc j)
      with i lt have "j < length as" "as ! j < ?n" by simp_all
      with new have "h (Suc ?n + j) = heap ?w1 (as ! j)" by simp
      then show ?thesis using Suc \<open>as ! j < ?n\<close> by simp
    qed
  qed
  have 4: "\<forall>i < length (a # as). (?n # ns) ! i = ?n + i"
  proof (intro allI impI)
    fix i assume "i < length (a # as)"
    then show "(?n # ns) ! i = ?n + i" using idx by (cases i) simp_all
  qed
  from 1 2 3 4 len show ?case by auto
qed

lemma copy_all_fresh:
  assumes "length ns = length as" and "\<forall>i < length as. ns ! i = n + i" and "a \<in> set ns"
  shows "n \<le> a \<and> a < n + length as"
proof -
  from assms(3) obtain i where "i < length ns" "ns ! i = a" by (auto simp: in_set_conv_nth)
  with assms(1,2) show ?thesis by auto
qed

lemma snapshot_train_frame:
  "\<exists>h ns. snapshot_train w =
         w\<lparr>heap := h, next_addr := Suc (next_addr w) + length (metric_meters w),
           train_loss := Some (next_addr w), train_metrics := Some ns\<rparr>
       \<and> (\<forall>a < next_addr w. h a = heap w a)
       \<and> h (next_addr w) = heap w (loss_meter w)
       \<and> (\<forall>a \<in> set ns. next_addr w < a \<and> a < Suc (next_addr w) + length (metric_meters w))"
proof -
  let ?n = "next_addr w"
  let ?w1 = "w\<lparr>heap := (heap w)(?n := heap w (loss_meter w)), next_addr := Suc ?n,
               train_loss := Some ?n\<rparr>"
  obtain h ns where h: "copy_all (metric_meters w) ?w1 =
         (ns, ?w1\<lparr>heap := h, next_addr := next_addr ?w1 + length (metric_meters w)\<rparr>)"
    and len: "length ns = length (metric_meters w)"
    and idx: "\<forall>i < length (metric_meters w). ns ! i = next_addr ?w1 + i"
    and old: "\<forall>a < next_addr ?w1. h a = heap ?w1 a"
    using copy_all_frame[of "metric_meters w" ?w1] by blast
  have "snapshot_train w =
         w\<lparr>heap := h, next_addr := Suc ?n + length (metric_meters w),
           train_loss := Some ?n, train_metrics := Some ns\<rparr>"
    using h by (simp add: snapshot_train_def copy_def)
  moreover have "\<forall>a < ?n. h a = heap w a" using old by simp
  moreover have "h ?n = heap w (loss_meter w)" using old by simp
  moreover have "\<forall>a \<in> set ns. ?n < a \<and> a < Suc ?n + length (metric_meters w)"
    using copy_all_fresh[OF len idx] by fastforce
  ultimately show ?thesis by blast
qed

lemma snapshot_val_frame:
  "\<exists>h ns. snapshot_val w =
         w\<lparr>heap := h, next_addr := Suc (next_addr w) + length (metric_meters w),
           val_loss := Some (next_addr w), val_metrics := Some ns\<rparr>
       \<and> (\<forall>a < next_addr w. h a = heap w a)
       \<and> h (next_addr w) = heap w (loss_meter w)
       \<and> (\<forall>a \<in> set ns. next_addr w < a \<and> a < Suc (next_addr w) + length (metric_meters w))"
proof -
  let ?n = "next_addr w"
  let ?w1 = "w\<lparr>heap := (heap w)(?n := heap w (loss_meter w)), next_addr := Suc ?n,
               val_loss := Some ?n\<rparr>"
  obtain h ns where h: "copy_all (metric_meters w) ?w1 =
         (ns, ?w1\<lparr>heap := h, next_addr := next_addr ?w1 + length (metric_meters w)\<rparr>)"
    and len: "length ns = length (metric_meters w)"
    and idx: "\<forall>i < length (metric_meters w). ns ! i = next_addr ?w1 + i"
    and old: "\<forall>a < next_addr ?w1. h a = heap ?w1 a"
    using copy_all_frame[of "metric_meters w" ?w1] by blast
  have "snapshot_val w =
         w\<lparr>heap := h, next_addr := Suc ?n + length (metric_meters w),
           val_loss := Some ?n, val_metrics := Some ns\<rparr>"
    using h by (simp add: snapshot_val_def copy_def)
  moreover have "\<forall>a < ?n. h a = heap w a" using old by simp
  moreover have "h ?n = heap w (loss_meter w)" using old by simp
  moreover have "\<forall>a \<in> set ns. ?n < a \<and> a < Suc ?n + length (metric_meters w)"
    using copy_all_fresh[OF len idx] by fastforce
  ultimately show ?thesis by blast
qed

lemma snapshot_trace [simp]:
  "trace (snapshot_train w) = trace w" "trace (snapshot_val w) = trace w"
proof -
  obtain h ns where "snapshot_train w =
         w\<lparr>heap := h, next_addr := Suc (next_addr w) + length (metric_meters w),
           train_loss := Some (next_addr w), train_metrics := Some ns\<rparr>"
    using snapshot_train_frame by blast
  then show "trace (snapshot_train w) = trace w" by simp
  obtain h ns where "snapshot_val w =
         w\<lparr>heap := h, next_addr := Suc (next_addr w) + length (metric_meters w),
           val_loss := Some (next_addr w), val_metrics := Some ns\<rparr>"
    using snapshot_val_frame by blast
  then show "trace (snapshot_val w) = trace w" by simp
qed

lemma grows_evaluate: "grows (pass_hooks loader) (evaluate E loader steps)"
proof (rule growsI)
  fix w r w' assume a: "evaluate E loader steps w = (Inr r, w')"
  let ?w = "w\<lparr>is_train := False, training := False\<rparr>"
  from a have "run_one_epoch E loader steps ?w = (Inr (), w')"
    by (cases "run_one_epoch E loader steps ?w") (auto simp: evaluate_unfold split: sum.splits)
  from growsD[OF grows_run_one_epoch this]
  show "hooks_of (trace w') = hooks_of (trace w) @ pass_hooks loader" by simp
qed

lemma grows_bind_ret: "grows xs m \<Longrightarrow> grows xs (bind m (\<lambda>_. ret ()))"
  by (auto simp: grows_def bind_def ret_def split: prod.splits sum.splits)

lemma grows_validate:
  "grows (case vl of None \<Rightarrow> [] | Some l \<Rightarrow> pass_hooks l) (validate E vl vs)"
proof (cases vl)
  case None
  then show ?thesis by (simp add: validate_def grows_def ret_def)
next
  case (Some l)
  have "grows (pass_hooks l @ [] @ [])
          (seqs [bind (evaluate E l vs) (\<lambda>_. ret ()), modify snapshot_val])"
    by (intro grows_seqs_Cons grows_seqs_Nil grows_bind_ret grows_evaluate grows_modify) simp
  then show ?thesis using Some by (simp add: validate_def del: seqs.simps)
qed

lemma grows_epoch_body:
  "grows (epoch_hooks trl vl) (epoch_body E trl st vl vs k)"
proof -
  have "grows ([] @ [] @ [OnEpochBegin] @ [] @ pass_hooks trl @ []
          @ (case vl of None \<Rightarrow> [] | Some l \<Rightarrow> pass_hooks l) @ [OnEpochEnd] @ [])
     (seqs [modify (\<lambda>w. w\<lparr>is_train := True\<rparr>),
           modify (\<lambda>w. w\<lparr>epoch := k\<rparr>),
           emit E OnEpochBegin,
           modify (\<lambda>w. w\<lparr>training := True\<rparr>),
           run_one_epoch E trl st,
           modify snapshot_train,
           validate E vl vs,
           emit E OnEpochEnd])"
    by (intro grows_seqs_Cons grows_seqs_Nil grows_emit grows_modify grows_run_one_epoch
          grows_validate) simp_all
  then show ?thesis by (simp add: epoch_body_def epoch_hooks_def del: seqs.simps)
qed

lemma grows_fit:
  "grows (OnTrainBegin #
            concat (replicate (length (py_range start epochs)) (epoch_hooks trl vl))
            @ [OnTrainEnd])
     (fit E trl st vl vs epochs start)"
proof -
  have "grows ([] @ [] @ [OnTrainBegin] @
            concat (replicate (length (py_range start epochs)) (epoch_hooks trl vl))
            @ [OnTrainEnd] @ [])
     (seqs [modify (\<lambda>w. w\<lparr>num_epochs := epochs\<rparr>),
           modify (\<lambda>w. w\<lparr>batch_size :=
                     (case batch_size_attr trl of Some b \<Rightarrow> b | None \<Rightarrow> 1)\<rparr>),
           emit E OnTrainBegin,
           seqs (map (epoch_body E trl st vl vs) (py_range start epochs)),
           emit E OnTrainEnd])"
    by (intro grows_seqs_Cons grows_seqs_Nil grows_emit grows_modify grows_seqs_map
          grows_epoch_body) simp_all
  then show ?thesis by (simp add: fit_def del: seqs.simps)
qed

lemma length_py_range: "length (py_range a b) = nat (b - a)"
  by (simp add: py_range_def)

lemma keeps_evaluate:
  assumes "plain I f" and "heap_ok I f" and "\<And>ev. quiet I f ev" and "outer I f"
    and "hooks_keep I f E"
  shows "keeps I f (evaluate E loader steps)"
proof -
  have "keeps I f (run_one_epoch E loader steps)"
    using assms by (intro keeps_run_one_epoch) (simp_all add: outer_def)
  then show ?thesis
    unfolding evaluate_def
    using assms(4)
    by (intro keeps_bind keeps_get keeps_seqs) (auto intro!: keeps_modify simp: outer_def)
qed

lemma keeps_validate:
  assumes "plain I f" and "heap_ok I f" and "\<And>ev. quiet I f ev" and "outer I f"
    and "hooks_keep I f E"
  shows "keeps I f (validate E vl vs)"
proof (cases vl)
  case None
  then show ?thesis by (simp add: validate_def keeps_ret)
next
  case (Some l)
  have "keeps I f (bind (evaluate E l vs) (\<lambda>_. ret ()))"
    by (intro keeps_bind keeps_evaluate keeps_ret assms)
  then have "keeps I f (seqs [bind (evaluate E l vs) (\<lambda>_. ret ()), modify snapshot_val])"
    using assms(4) by (intro keeps_seqs) (auto intro!: keeps_modify simp: outer_def)
  then show ?thesis using Some by (simp add: validate_def del: seqs.simps)
qed

lemma keeps_epoch_body:
  assumes "plain I f" and "heap_ok I f" and "\<And>ev. quiet I f ev" and "outer I f"
    and "hooks_keep I f E"
  shows "keeps I f (epoch_body E trl st vl vs k)"
proof -
  have 1: "keeps I f (run_one_epoch E trl st)"
    using assms by (intro keeps_run_one_epoch) (simp_all add: outer_def)
  have 2: "keeps I f (validate E vl vs)"
    by (intro keeps_validate assms)
  have 3: "keeps I f (emit E h)" for h
    by (intro keeps_emit assms)
  show ?thesis
    unfolding epoch_body_def
    using assms(4)
    by (intro keeps_seqs) (auto intro!: keeps_modify 1 2 3 simp: outer_def)
qed

lemma keeps_fit:
  assumes "plain I f" and "heap_ok I f" and "\<And>ev. quiet I f ev" and "outer I f"
    and "hooks_keep I f E"
  shows "keeps I f (fit E trl st vl vs epochs start)"
proof -
  have 1: "keeps I f (seqs (map (epoch_body E trl st vl vs) ks))" for ks
    by (intro keeps_seqs) (auto intro!: keeps_epoch_body assms)
  have 3: "keeps I f (emit E h)" for h
    by (intro keeps_emit assms)
  show ?thesis
    unfolding fit_def
    using assms(4)
    by (intro keeps_seqs) (auto intro!: keeps_modify 1 3 simp: outer_def)
qed

lemma snapshot_verbose [simp]:
  "verbose (snapshot_train w) = verbose w" "verbose (snapshot_val w) = verbose w"
proof -
  obtain h ns where "snapshot_train w =
         w\<lparr>heap := h, next_addr := Suc (next_addr w) + length (metric_meters w),
           train_loss := Some (next_addr w), train_metrics := Some ns\<rparr>"
    using snapshot_train_frame by blast
  then show "verbose (snapshot_train w) = verbose w" by simp
  obtain h ns where "snapshot_val w =
         w\<lparr>heap := h, next_addr := Suc (next_addr w) + length (metric_meters w),
           val_loss := Some (next_addr w), val_metrics := Some ns\<rparr>"
    using snapshot_val_frame by blast
  then show "verbose (snapshot_val w) = verbose w" by simp
qed

lemma quiet_conditions:
  "plain (\<lambda>w. \<not> verbose w) (\<lambda>_. ())" "heap_ok (\<lambda>w. \<not> verbose w) (\<lambda>_. ())"
  "quiet (\<lambda>w. \<not> verbose w) (\<lambda>_. ()) ev" "outer (\<lambda>w. \<not> verbose w) (\<lambda>_. ())"
  by (simp_all add: plain_def heap_ok_def quiet_def outer_def inert_def)

lemma totalI: "(\<And>w. I w \<Longrightarrow> \<not> isl (fst (m w))) \<Longrightarrow> total I m"
  by (simp add: total_def)

lemma totalD: "total I m \<Longrightarrow> I w \<Longrightarrow> \<not> isl (fst (m w))"
  by (simp add: total_def)

lemma total_ret: "total I (ret x)"
  by (simp add: total_def ret_def)

lemma total_get: "total I (get g)"
  by (simp add: total_def get_def)

lemma total_modify: "total I (modify g)"
  by (simp add: total_def modify_def)

lemma total_log: "total I (log ev)"
  by (simp add: total_def log_def)

lemma total_lift: "\<not> isl r \<Longrightarrow> total I (lift r)"
  by (simp add: total_def lift_def)

lemma total_bind:
  assumes "total I m" and "keeps I (\<lambda>_. ()) m" and "\<And>x. total I (k x)"
  shows "total I (bind m k)"
proof (rule totalI)
  fix w assume I: "I w"
  obtain r w1 where m: "m w = (r, w1)" by (cases "m w")
  from totalD[OF assms(1) I] m obtain x where r: "r = Inr x" by (cases r) auto
  from assms(2) I m have "I w1" by (auto simp: keeps_def dest!: spec[of _ w])
  from totalD[OF assms(3) this] show "\<not> isl (fst (bind m k w))"
    by (simp add: bind_def m r)
qed

lemma total_seqs:
  assumes "\<And>m. m \<in> set ms \<Longrightarrow> total I m" and "\<And>m. m \<in> set ms \<Longrightarrow> keeps I (\<lambda>_. ()) m"
  shows "total I (seqs ms)"
  using assms
proof (induction ms)
  case Nil
  show ?case by (simp add: total_def)
next
  case (Cons m ms)
  have t: "total I (seqs ms)" using Cons by simp
  show ?case
  proof (rule totalI)
    fix w assume I: "I w"
    obtain r w1 where m: "m w = (r, w1)" by (cases "m w")
    from Cons.prems(1)[of m] I m obtain x where r: "r = Inr x"
      by (cases r) (auto simp: total_def dest!: spec[of _ w])
    from Cons.prems(2)[of m] I m have "I w1" by (auto simp: keeps_def dest!: spec[of _ w])
    from totalD[OF t this] show "\<not> isl (fst (seqs (m # ms) w))"
      by (simp add: m r)
  qed
qed

lemma keeps_trivial: "keeps (\<lambda>_. True) (\<lambda>_. ()) m"
  by (simp add: keeps_def)

lemma total_ext: "(\<And>p. \<not> isl (g p)) \<Longrightarrow> total I (ext ev g)"
proof (rule totalI)
  fix w :: "('a, 'b) world"
  assume g: "\<And>p. \<not> isl (g p)"
  from g[of "params w"] obtain p where "g (params w) = Inr p" by (cases "g (params w)") auto
  then show "\<not> isl (fst (ext ev g w))" by (simp add: ext_def Let_def)
qed

lemma total_emit: "hooks_pass E h \<Longrightarrow> total I (emit E h)"
  by (simp add: total_def emit_pass)

lemma total_get_lift:
  assumes "\<And>w. I w \<Longrightarrow> \<not> isl (g w)" and "\<And>x. total I (k x)"
  shows "total I (bind (get g) (\<lambda>r. bind (lift r) k))"
proof (rule totalI)
  fix w assume I: "I w"
  from assms(1)[OF I] obtain x where "g w = Inr x" by (cases "g w") auto
  then show "\<not> isl (fst (bind (get g) (\<lambda>r. bind (lift r) k) w))"
    using totalD[OF assms(2) I, of x] by (simp add: bind_def get_def lift_def)
qed

lemma total_make_step:
  assumes c: "calm E"
  shows "total (\<lambda>_. True) (make_step E b)"
proof -
  obtain images target where b: "b = (images, target)" by (cases b)
  have tb: "total (\<lambda>_. True) (train_branch E loss)" for loss
    unfolding train_branch_def
    using c by (intro total_seqs keeps_trivial) (auto intro!: total_ext simp: calm_def)
  have um: "total (\<lambda>_. True) (update_metric E out target ma)"
    if "ma \<in> set (zip (metrics E) ms)" for ma out ms
  proof -
    obtain metric a where ma: "ma = (metric, a)" by (cases ma)
    with that have "metric \<in> set (metrics E)" by (auto dest: set_zip_leftD)
    with c have "\<not> isl (metric out target)" by (simp add: calm_def)
    then show ?thesis
      unfolding update_metric_def ma prod.case
      using c
      by (intro total_bind total_lift total_modify keeps_trivial) (simp_all add: calm_def)
  qed
  have ums: "total (\<lambda>_. True) (seqs (map (update_metric E out target) (zip (metrics E) ms)))"
    for out ms
    by (intro total_seqs keeps_trivial) (auto intro: um)
  have if_tb: "total (\<lambda>_. True) (if t then train_branch E loss else ret ())" for t loss
    by (simp add: tb total_ret)
  show ?thesis
    unfolding make_step_def b prod.case
    apply (rule total_bind[OF total_modify keeps_trivial])
    apply (rule total_get_lift)
     apply (insert c, simp add: calm_def)[1]
    apply (intro total_bind keeps_trivial total_modify total_get ums if_tb total_lift)
     apply (insert c, simp_all add: calm_def)
    done
qed

lemma total_weaken: "total (\<lambda>_. True) m \<Longrightarrow> total I m"
  by (simp add: total_def)

lemma calm_hooks_keep: "calm E \<Longrightarrow> hooks_keep (\<lambda>w. \<not> verbose w) (\<lambda>_. ()) E"
  by (simp add: calm_def)

lemma keeps_quiet_batch_body:
  "calm E \<Longrightarrow> keeps (\<lambda>w. \<not> verbose w) (\<lambda>_. ()) (batch_body E ib)"
  by (intro keeps_batch_body quiet_conditions disjI2 allI impI calm_hooks_keep)

lemma total_batch_body:
  assumes c: "calm E"
  shows "total (\<lambda>w. \<not> verbose w) (batch_body E ib)"
proof -
  obtain i b where ib: "ib = (i, b)" by (cases ib)
  let ?I = "\<lambda>w::('a, 'b) world. \<not> verbose w"
  have hp: "hooks_pass E h" for h using c by (simp add: calm_def)
  have v: "total ?I (bind (get verbose) (\<lambda>v.
             if v then bind (get desc) (\<lambda>d. log (SetPostfix d)) else ret ()))"
    by (intro total_bind total_get keeps_get)
      (auto intro!: total_bind total_get keeps_get total_log total_ret)
  have kv: "keeps ?I (\<lambda>_. ()) (bind (get verbose) (\<lambda>v.
             if v then bind (get desc) (\<lambda>d. log (SetPostfix d)) else ret ()))"
    by (intro keeps_bind keeps_get)
      (auto intro!: keeps_bind keeps_get keeps_log keeps_ret quiet_conditions)
  have "total ?I (seqs [modify (\<lambda>w. w\<lparr>step := i\<rparr>), emit E OnBatchBegin, make_step E b,
        bind (get verbose) (\<lambda>v. if v then bind (get desc) (\<lambda>d. log (SetPostfix d)) else ret ()),
        emit E OnBatchEnd])"
  proof (rule total_seqs)
    fix m assume "m \<in> set [modify (\<lambda>w. w\<lparr>step := i\<rparr>), emit E OnBatchBegin, make_step E b,
        bind (get verbose) (\<lambda>v. if v then bind (get desc) (\<lambda>d. log (SetPostfix d)) else ret ()),
        emit E OnBatchEnd]"
    then show "total ?I m"
      by (auto intro!: total_modify total_emit hp v total_weaken[OF total_make_step[OF c]])
  next
    fix m assume "m \<in> set [modify (\<lambda>w. w\<lparr>step := i\<rparr>), emit E OnBatchBegin, make_step E b,
        bind (get verbose) (\<lambda>v. if v then bind (get desc) (\<lambda>d. log (SetPostfix d)) else ret ()),
        emit E OnBatchEnd]"
    then show "keeps ?I (\<lambda>_. ()) m"
      by (auto intro!: keeps_modify keeps_emit keeps_make_step quiet_conditions kv
          calm_hooks_keep[OF c] simp: inert_def)
  qed
  then show ?thesis by (simp add: batch_body_def ib del: seqs.simps)
qed

lemma total_batch_loop: "calm E \<Longrightarrow> total (\<lambda>w. \<not> verbose w) (batch_loop E loader)"
  unfolding batch_loop_def
  by (intro total_seqs) (auto intro!: total_batch_body keeps_quiet_batch_body)

lemma total_run_one_epoch:
  assumes c: "calm E" and n: "steps_or_len steps loader = Inr n"
  shows "total (\<lambda>w. \<not> verbose w) (run_one_epoch E loader steps)"
proof (rule totalI)
  fix w :: "('a, 'b) world" assume v: "\<not> verbose w"
  let ?w1 = "(reset_all w)\<lparr>ep_size := n, grad_enabled := is_train w\<rparr>"
  have "\<not> verbose ?w1" using v by simp
  from totalD[OF total_batch_loop[OF c] this]
  have "\<not> isl (fst (batch_loop E loader ?w1))" .
  then show "\<not> isl (fst (run_one_epoch E loader steps w))"
    using n v
    by (cases "batch_loop E loader ?w1")
      (simp add: run_one_epoch_unfold with_set_grad_enabled_def)
qed

lemma total_evaluate:
  assumes c: "calm E" and n: "steps_or_len steps loader = Inr n"
  shows "total (\<lambda>w. \<not> verbose w) (evaluate E loader steps)"
proof (rule totalI)
  fix w :: "('a, 'b) world" assume v: "\<not> verbose w"
  let ?w = "w\<lparr>is_train := False, training := False\<rparr>"
  have "\<not> verbose ?w" using v by simp
  from totalD[OF total_run_one_epoch[OF c n] this]
  show "\<not> isl (fst (evaluate E loader steps w))"
    by (cases "run_one_epoch E loader steps ?w")
      (auto simp: evaluate_unfold split: sum.splits)
qed

lemma total_validate:
  assumes c: "calm E" and n: "case vl of None \<Rightarrow> True | Some l \<Rightarrow> \<not> isl (steps_or_len vs l)"
  shows "total (\<lambda>w. \<not> verbose w) (validate E vl vs)"
proof (cases vl)
  case None
  then show ?thesis by (simp add: validate_def total_ret)
next
  case (Some l)
  with n obtain m where m: "steps_or_len vs l = Inr m" by (cases "steps_or_len vs l") auto
  have "total (\<lambda>w. \<not> verbose w) (seqs [bind (evaluate E l vs) (\<lambda>_. ret ()), modify snapshot_val])"
    by (intro total_seqs)
      (auto intro!: total_bind total_evaluate[OF c m] total_ret total_modify keeps_evaluate
         keeps_bind keeps_ret keeps_modify quiet_conditions calm_hooks_keep[OF c]
         simp: inert_def)
  then show ?thesis using Some by (simp add: validate_def del: seqs.simps)
qed

lemma total_epoch_body:
  assumes c: "calm E" and s: "sized trl st vl vs"
  shows "total (\<lambda>w. \<not> verbose w) (epoch_body E trl st vl vs k)"
proof -
  from s obtain n where n: "steps_or_len st trl = Inr n"
    by (cases "steps_or_len st trl") (auto simp: sized_def)
  from s have v: "case vl of None \<Rightarrow> True | Some l \<Rightarrow> \<not> isl (steps_or_len vs l)"
    by (simp add: sized_def)
  have hp: "hooks_pass E h" for h using c by (simp add: calm_def)
  have kr: "keeps (\<lambda>w. \<not> verbose w) (\<lambda>_. ()) (run_one_epoch E trl st)"
    by (intro keeps_run_one_epoch quiet_conditions disjI2 allI impI calm_hooks_keep[OF c])
      (simp add: inert_def)
  show ?thesis
    unfolding epoch_body_def
    by (intro total_seqs)
      (auto intro!: total_modify total_emit hp total_run_one_epoch[OF c n] total_validate[OF c v]
         keeps_modify keeps_emit kr keeps_validate quiet_conditions calm_hooks_keep[OF c]
         simp: inert_def)
qed

lemma total_fit:
  assumes c: "calm E" and s: "sized trl st vl vs"
  shows "total (\<lambda>w. \<not> verbose w) (fit E trl st vl vs epochs start)"
proof -
  have hp: "hooks_pass E h" for h using c by (simp add: calm_def)
  have 1: "total (\<lambda>w. \<not> verbose w) (seqs (map (epoch_body E trl st vl vs) ks))" for ks
    by (intro total_seqs)
      (auto intro!: total_epoch_body[OF c s] keeps_epoch_body quiet_conditions
         calm_hooks_keep[OF c])
  have 2: "keeps (\<lambda>w. \<not> verbose w) (\<lambda>_. ()) (seqs (map (epoch_body E trl st vl vs) ks))" for ks
    by (intro keeps_seqs) (auto intro!: keeps_epoch_body quiet_conditions calm_hooks_keep[OF c])
  show ?thesis
    unfolding fit_def
    by (intro total_seqs)
      (auto intro!: total_modify total_emit hp 1 2 keeps_modify keeps_emit quiet_conditions
         calm_hooks_keep[OF c] simp: inert_def)
qed

lemma fit_run:
  assumes v: "\<not> verbose w" and c: "calm E" and s: "sized trl st vl vs"
  shows "fst (fit E trl st vl vs epochs start w) = Inr ()"
    and "hooks_of (trace (snd (fit E trl st vl vs epochs start w))) =
           hooks_of (trace w) @ OnTrainBegin #
             concat (replicate (nat (epochs - start)) (epoch_hooks trl vl)) @ [OnTrainEnd]"
proof -
  obtain r w' where f: "fit E trl st vl vs epochs start w = (r, w')"
    by (cases "fit E trl st vl vs epochs start w")
  from totalD[OF total_fit[OF c s, of epochs start] v] f have r: "r = Inr ()"
    by (cases r) auto
  show "fst (fit E trl st vl vs epochs start w) = Inr ()" by (simp add: f r)
  from growsD[OF grows_fit] f r
  show "hooks_of (trace (snd (fit E trl st vl vs epochs start w))) =
           hooks_of (trace w) @ OnTrainBegin #
             concat (replicate (nat (epochs - start)) (epoch_hooks trl vl)) @ [OnTrainEnd]"
    by (simp add: length_py_range)
qed

lemma batch_begins_hooks:
  "batch_begins tr = length (filter (\<lambda>h. h = OnBatchBegin) (hooks_of tr))"
  by (induction tr rule: hooks_of.induct) (simp_all add: batch_begins_def)

text \<open>
  C1, as amended. With verbose mode off, collaborators and hooks that do not raise, no hook
  that turns verbose mode on, and a step count \<open>S > 0\<close>,
  \<^verbatim>\<open>fit(train_source, steps_per_epoch=S, epochs=n)\<close> returns normally, and the hooks it emits are: \<^verbatim>\<open>on_train_begin\<close> once; then for each of the \<open>n\<close> epochs \<^verbatim>\<open>on_epoch_begin\<close>, one
  \<^verbatim>\<open>on_batch_begin\<close>/\<^verbatim>\<open>on_batch_end\<close> pair for every batch the source yields (all \<open>L\<close> of them,
  whatever \<open>S\<close> is: the step count does not truncate the iteration), and \<^verbatim>\<open>on_epoch_end\<close>;
  then \<^verbatim>\<open>on_train_end\<close> once.
\<close>

theorem fit_emits_every_batch:
  "\<not> verbose w \<and> calm E \<and> 0 < S \<longrightarrow>
     fst (fit E trl (Some S) None vs (int n) 0 w) = Inr ()
     \<and> hooks_of (trace (snd (fit E trl (Some S) None vs (int n) 0 w))) =
         hooks_of (trace w) @ OnTrainBegin #
           concat (replicate n
             (OnEpochBegin #
                concat (replicate (length (batches trl)) [OnBatchBegin, OnBatchEnd])
                @ [OnEpochEnd]))
           @ [OnTrainEnd]"
proof
  assume a: "\<not> verbose w \<and> calm E \<and> 0 < S"
  then have s: "sized trl (Some S) None vs"
    by (simp add: sized_def steps_or_len_def)
  from fit_run[of w E trl "Some S" None vs "int n" 0] a s
  show "fst (fit E trl (Some S) None vs (int n) 0 w) = Inr ()
     \<and> hooks_of (trace (snd (fit E trl (Some S) None vs (int n) 0 w))) =
         hooks_of (trace w) @ OnTrainBegin #
           concat (replicate n
             (OnEpochBegin #
                concat (replicate (length (batches trl)) [OnBatchBegin, OnBatchEnd])
                @ [OnEpochEnd]))
           @ [OnTrainEnd]"
    by (simp add: epoch_hooks_def pass_hooks_def)
qed

lemma calm_env0: "calm env0"
  by (simp add: calm_def env0_def hooks_pass_def hooks_keep_def)

theorem fit_emits_every_batch_witness:
  "fst (fit env0 loader2 (Some 1) None None (int 2) 0 (w0 False)) = Inr ()
   \<and> hooks_of (trace (snd (fit env0 loader2 (Some 1) None None (int 2) 0 (w0 False)))) =
       [OnTrainBegin,
        OnEpochBegin, OnBatchBegin, OnBatchEnd, OnBatchBegin, OnBatchEnd, OnEpochEnd,
        OnEpochBegin, OnBatchBegin, OnBatchEnd, OnBatchBegin, OnBatchEnd, OnEpochEnd,
        OnTrainEnd]"
proof -
  have 1: "\<not> verbose (w0 False)" "hooks_of (trace (w0 False)) = []"
    by (simp_all add: w0_def)
  have 2: "length (batches loader2) = Suc (Suc 0)" by (simp add: loader2_def)
  show ?thesis
    using fit_emits_every_batch[of "w0 False" env0 1 loader2 None 2] 1 calm_env0
    by (simp add: 2 numeral_2_eq_2)
qed

text \<open>
  C1 as stated fails: with \<^verbatim>\<open>steps_per_epoch=1\<close> on a source of two batches the epoch runs
  both batches, not \<open>min(1, 2) = 1\<close>.
\<close>

theorem steps_do_not_truncate_counterexample:
  "batch_begins (trace (snd (fit env0 loader2 (Some 1) None None 1 0 (w0 False)))) = 2
   \<and> min 1 (length (batches loader2)) = 1"
proof -
  have 1: "\<not> verbose (w0 False)" "hooks_of (trace (w0 False)) = []"
    by (simp_all add: w0_def)
  have s: "sized loader2 (Some 1) None None"
    by (simp add: sized_def steps_or_len_def)
  have 2: "length (batches loader2) = Suc (Suc 0)" by (simp add: loader2_def)
  from fit_run(2)[OF 1(1) calm_env0 s, of 1 0]
  show ?thesis
    by (simp add: batch_begins_hooks 1 2 epoch_hooks_def pass_hooks_def)
qed

lemma copy_all_content:
  assumes "copy_all as w = (ns, w')" and "\<forall>a \<in> set as. a < next_addr w"
  shows "map (heap w') ns = map (heap w) as"
proof -
  obtain h ns' where c: "copy_all as w = (ns', w\<lparr>heap := h, next_addr := next_addr w + length as\<rparr>)"
    and len: "length ns' = length as"
    and idx: "\<forall>i < length as. ns' ! i = next_addr w + i"
    and new: "\<forall>i < length as. as ! i < next_addr w \<longrightarrow> h (next_addr w + i) = heap w (as ! i)"
    using copy_all_frame[of as w] by blast
  from c assms(1) have ns: "ns = ns'" and w': "w' = w\<lparr>heap := h, next_addr := next_addr w + length as\<rparr>"
    by simp_all
  show ?thesis
  proof (rule nth_equalityI)
    show "length (map (heap w') ns) = length (map (heap w) as)" by (simp add: ns len)
  next
    fix i assume "i < length (map (heap w') ns)"
    then have i: "i < length as" by (simp add: ns len)
    with assms(2) have "as ! i < next_addr w" by simp
    with new idx i show "map (heap w') ns ! i = map (heap w) as ! i"
      by (simp add: ns len w')
  qed
qed

lemma snapshot_train_content:
  assumes "wf_heap w"
  shows "\<exists>ns. train_metrics (snapshot_train w) = Some ns
          \<and> map (heap (snapshot_train w)) ns = map (heap w) (metric_meters w)"
proof -
  let ?n = "next_addr w"
  let ?w1 = "w\<lparr>heap := (heap w)(?n := heap w (loss_meter w)), next_addr := Suc ?n,
               train_loss := Some ?n\<rparr>"
  obtain ns w2 where c: "copy_all (metric_meters w) ?w1 = (ns, w2)"
    by (cases "copy_all (metric_meters w) ?w1")
  have lt: "\<forall>a \<in> set (metric_meters w). a < next_addr ?w1"
    using assms by (auto simp: wf_heap_def)
  have "map (heap w2) ns = map (heap ?w1) (metric_meters w)"
    by (rule copy_all_content[OF c lt])
  also have "\<dots> = map (heap w) (metric_meters w)"
    using assms by (auto simp: wf_heap_def)
  finally have "map (heap w2) ns = map (heap w) (metric_meters w)" .
  moreover have "snapshot_train w = w2\<lparr>train_metrics := Some ns\<rparr>"
    using c by (simp add: snapshot_train_def copy_def)
  ultimately show ?thesis by simp
qed

lemma snapshot_val_content:
  assumes "wf_heap w"
  shows "\<exists>ns. val_metrics (snapshot_val w) = Some ns
          \<and> map (heap (snapshot_val w)) ns = map (heap w) (metric_meters w)"
proof -
  let ?n = "next_addr w"
  let ?w1 = "w\<lparr>heap := (heap w)(?n := heap w (loss_meter w)), next_addr := Suc ?n,
               val_loss := Some ?n\<rparr>"
  obtain ns w2 where c: "copy_all (metric_meters w) ?w1 = (ns, w2)"
    by (cases "copy_all (metric_meters w) ?w1")
  have lt: "\<forall>a \<in> set (metric_meters w). a < next_addr ?w1"
    using assms by (auto simp: wf_heap_def)
  have "map (heap w2) ns = map (heap ?w1) (metric_meters w)"
    by (rule copy_all_content[OF c lt])
  also have "\<dots> = map (heap w) (metric_meters w)"
    using assms by (auto simp: wf_heap_def)
  finally have "map (heap w2) ns = map (heap w) (metric_meters w)" .
  moreover have "snapshot_val w = w2\<lparr>val_metrics := Some ns\<rparr>"
    using c by (simp add: snapshot_val_def copy_def)
  ultimately show ?thesis by simp
qed

lemma snaps_ok_alloc:
  assumes ok: "snaps_ok w"
    and sa: "snapshot_addrs w' \<subseteq> insert (next_addr w) (set ns \<union> snapshot_addrs w)"
    and fresh: "\<forall>a \<in> set ns. next_addr w < a \<and> a < next_addr w'"
    and n: "next_addr w < next_addr w'"
    and lm: "loss_meter w' = loss_meter w" "metric_meters w' = metric_meters w"
  shows "snaps_ok w'"
proof -
  from ok have wf: "wf_heap w"
    and old: "\<And>a. a \<in> snapshot_addrs w \<Longrightarrow> a < next_addr w \<and> \<not> live a w"
    by (simp_all add: snaps_ok_def)
  have live_lt: "a < next_addr w" if "live a w" for a
    using that wf by (auto simp: live_def wf_heap_def)
  have live_eq: "live a w' = live a w" for a
    by (simp add: live_def lm)
  have wf': "wf_heap w'"
    using wf n by (auto simp: wf_heap_def lm)
  have "a < next_addr w' \<and> \<not> live a w'" if "a \<in> snapshot_addrs w'" for a
  proof -
    from that sa have "a = next_addr w \<or> a \<in> set ns \<or> a \<in> snapshot_addrs w" by auto
    then show ?thesis
    proof (elim disjE)
      assume "a = next_addr w"
      then show ?thesis using n live_lt[of a] by (auto simp: live_eq)
    next
      assume "a \<in> set ns"
      with fresh have "next_addr w < a" "a < next_addr w'" by auto
      then show ?thesis using live_lt[of a] by (auto simp: live_eq)
    next
      assume "a \<in> snapshot_addrs w"
      from old[OF this] n show ?thesis by (simp add: live_eq)
    qed
  qed
  with wf' show ?thesis by (simp add: snaps_ok_def)
qed

lemma snaps_ok_snapshot_train: "snaps_ok w \<Longrightarrow> snaps_ok (snapshot_train w)"
proof -
  assume ok: "snaps_ok w"
  obtain h ns where eq: "snapshot_train w =
         w\<lparr>heap := h, next_addr := Suc (next_addr w) + length (metric_meters w),
           train_loss := Some (next_addr w), train_metrics := Some ns\<rparr>"
    and fresh: "\<forall>a \<in> set ns. next_addr w < a \<and> a < Suc (next_addr w) + length (metric_meters w)"
    using snapshot_train_frame[of w] by blast
  show ?thesis
  proof (rule snaps_ok_alloc[OF ok, of _ ns])
    show "snapshot_addrs (snapshot_train w)
            \<subseteq> insert (next_addr w) (set ns \<union> snapshot_addrs w)"
      by (auto simp: eq snapshot_addrs_def split: option.splits)
    show "\<forall>a \<in> set ns. next_addr w < a \<and> a < next_addr (snapshot_train w)"
      using fresh by (simp add: eq)
  qed (simp_all add: eq)
qed

lemma snaps_ok_snapshot_val: "snaps_ok w \<Longrightarrow> snaps_ok (snapshot_val w)"
proof -
  assume ok: "snaps_ok w"
  obtain h ns where eq: "snapshot_val w =
         w\<lparr>heap := h, next_addr := Suc (next_addr w) + length (metric_meters w),
           val_loss := Some (next_addr w), val_metrics := Some ns\<rparr>"
    and fresh: "\<forall>a \<in> set ns. next_addr w < a \<and> a < Suc (next_addr w) + length (metric_meters w)"
    using snapshot_val_frame[of w] by blast
  show ?thesis
  proof (rule snaps_ok_alloc[OF ok, of _ ns])
    show "snapshot_addrs (snapshot_val w)
            \<subseteq> insert (next_addr w) (set ns \<union> snapshot_addrs w)"
      by (auto simp: eq snapshot_addrs_def split: option.splits)
    show "\<forall>a \<in> set ns. next_addr w < a \<and> a < next_addr (snapshot_val w)"
      using fresh by (simp add: eq)
  qed (simp_all add: eq)
qed

lemma snaps_ok_conditions:
  "plain snaps_ok (\<lambda>_. ())" "heap_ok snaps_ok (\<lambda>_. ())" "quiet snaps_ok (\<lambda>_. ()) ev"
  "outer snaps_ok (\<lambda>_. ())"
  by (simp_all add: plain_def heap_ok_def quiet_def outer_def inert_def
      snaps_ok_snapshot_train snaps_ok_snapshot_val)
    (simp_all add: snaps_ok_def wf_heap_def snapshot_addrs_def live_def)

lemma frame_conditions:
  fixes a :: addr
  defines "I \<equiv> \<lambda>w::('p, 'x) world. wf_heap w \<and> a < next_addr w \<and> \<not> live a w"
  shows "plain I (\<lambda>w. heap w a)" "heap_ok I (\<lambda>w. heap w a)" "quiet I (\<lambda>w. heap w a) ev"
    "outer I (\<lambda>w. heap w a)"
proof -
  show "plain I (\<lambda>w. heap w a)"
    by (simp add: plain_def inert_def I_def wf_heap_def live_def)
  show "heap_ok I (\<lambda>w. heap w a)"
    by (auto simp: heap_ok_def I_def wf_heap_def live_def)
  show "quiet I (\<lambda>w. heap w a) ev"
    by (simp add: quiet_def inert_def I_def wf_heap_def live_def)
  have st: "inert I (\<lambda>w. heap w a) snapshot_train"
    unfolding inert_def
  proof (intro allI impI)
    fix w :: "('p, 'x) world" assume i: "I w"
    obtain h ns where eq: "snapshot_train w =
         w\<lparr>heap := h, next_addr := Suc (next_addr w) + length (metric_meters w),
           train_loss := Some (next_addr w), train_metrics := Some ns\<rparr>"
      and old: "\<forall>a < next_addr w. h a = heap w a"
      using snapshot_train_frame[of w] by blast
    from i old show "I (snapshot_train w) \<and> heap (snapshot_train w) a = heap w a"
      by (auto simp: eq I_def wf_heap_def live_def)
  qed
  have sv: "inert I (\<lambda>w. heap w a) snapshot_val"
    unfolding inert_def
  proof (intro allI impI)
    fix w :: "('p, 'x) world" assume i: "I w"
    obtain h ns where eq: "snapshot_val w =
         w\<lparr>heap := h, next_addr := Suc (next_addr w) + length (metric_meters w),
           val_loss := Some (next_addr w), val_metrics := Some ns\<rparr>"
      and old: "\<forall>a < next_addr w. h a = heap w a"
      using snapshot_val_frame[of w] by blast
    from i old show "I (snapshot_val w) \<and> heap (snapshot_val w) a = heap w a"
      by (auto simp: eq I_def wf_heap_def live_def)
  qed
  show "outer I (\<lambda>w. heap w a)"
    using st sv by (simp add: outer_def) (simp add: inert_def I_def wf_heap_def live_def)
qed

lemma hooks_spare_metersD:
  assumes "hooks_spare_meters E"
  shows "hooks_keep snaps_ok (\<lambda>_. ()) E"
    and "hooks_keep (\<lambda>w. wf_heap w \<and> a < next_addr w \<and> \<not> live a w) (\<lambda>w. heap w a) E"
  using assms
  unfolding hooks_spare_meters_def hooks_keep_def keeps_def meter_view_def snapshots_def
    snaps_ok_def wf_heap_def snapshot_addrs_def live_def
  by auto

lemma snapshot_frame_all:
  assumes ok: "snaps_ok w" and a: "a \<in> snapshot_addrs w" and hs: "hooks_spare_meters E"
  shows "heap (snd (validate E vl vs w)) a = heap w a"
    and "heap (snd (evaluate E l s w)) a = heap w a"
    and "heap (snd (epoch_body E trl st vl vs k w)) a = heap w a"
    and "heap (snd (fit E trl st vl vs epochs start w)) a = heap w a"
proof -
  let ?I = "\<lambda>w::('a, 'b) world. wf_heap w \<and> a < next_addr w \<and> \<not> live a w"
  from ok a have i: "?I w" by (simp add: snaps_ok_def)
  show "heap (snd (validate E vl vs w)) a = heap w a"
    using keeps_validate[of ?I "\<lambda>w. heap w a" E vl vs, OF frame_conditions hooks_spare_metersD(2)[OF hs]] i
    by (simp add: keeps_def)
  show "heap (snd (evaluate E l s w)) a = heap w a"
    using keeps_evaluate[of ?I "\<lambda>w. heap w a" E l s, OF frame_conditions hooks_spare_metersD(2)[OF hs]] i
    by (simp add: keeps_def)
  show "heap (snd (epoch_body E trl st vl vs k w)) a = heap w a"
    using keeps_epoch_body[of ?I "\<lambda>w. heap w a" E trl st vl vs k, OF frame_conditions hooks_spare_metersD(2)[OF hs]] i
    by (simp add: keeps_def)
  show "heap (snd (fit E trl st vl vs epochs start w)) a = heap w a"
    using keeps_fit[of ?I "\<lambda>w. heap w a" E trl st vl vs epochs start, OF frame_conditions hooks_spare_metersD(2)[OF hs]] i
    by (simp add: keeps_def)
qed

lemma snaps_ok_kept:
  assumes ok: "snaps_ok w" and hs: "hooks_spare_meters E"
  shows "snaps_ok (snd (validate E vl vs w))"
    and "snaps_ok (snd (evaluate E l s w))"
    and "snaps_ok (snd (epoch_body E trl st vl vs k w))"
    and "snaps_ok (snd (fit E trl st vl vs epochs start w))"
proof -
  show "snaps_ok (snd (validate E vl vs w))"
    using keeps_validate[of snaps_ok "\<lambda>_. ()" E vl vs, OF snaps_ok_conditions hooks_spare_metersD(1)[OF hs]] ok
    by (simp add: keeps_def)
  show "snaps_ok (snd (evaluate E l s w))"
    using keeps_evaluate[of snaps_ok "\<lambda>_. ()" E l s, OF snaps_ok_conditions hooks_spare_metersD(1)[OF hs]] ok
    by (simp add: keeps_def)
  show "snaps_ok (snd (epoch_body E trl st vl vs k w))"
    using keeps_epoch_body[of snaps_ok "\<lambda>_. ()" E trl st vl vs k, OF snaps_ok_conditions hooks_spare_metersD(1)[OF hs]] ok
    by (simp add: keeps_def)
  show "snaps_ok (snd (fit E trl st vl vs epochs start w))"
    using keeps_fit[of snaps_ok "\<lambda>_. ()" E trl st vl vs epochs start, OF snaps_ok_conditions hooks_spare_metersD(1)[OF hs]] ok
    by (simp add: keeps_def)
qed

text \<open>
  C6. In a well-formed context (that of a fresh runner, or any context the driver has
  left behind) the snapshot taken after a training pass or a validation pass is a new
  object: \<^verbatim>\<open>train_loss\<close> (or \<^verbatim>\<open>val_loss\<close>) holds the values of the loss meter, and the snapshot
  list holds the values of the metric meters, in order. As long as no hook touches the
  meters or the snapshots, no later validation pass, call of \<^verbatim>\<open>evaluate\<close>, epoch or whole
  \<^verbatim>\<open>fit\<close>, with the meter resets and updates it makes, changes the values of an object that
  a snapshot field refers to, and the context stays well-formed.
\<close>

theorem snapshots_are_independent_copies:
  "snaps_ok w \<longrightarrow>
     snaps_ok (snapshot_train w)
     \<and> train_loss (snapshot_train w) = Some (next_addr w)
     \<and> heap (snapshot_train w) (next_addr w) = heap w (loss_meter w)
     \<and> (\<exists>ns. train_metrics (snapshot_train w) = Some ns
            \<and> map (heap (snapshot_train w)) ns = map (heap w) (metric_meters w))
     \<and> snaps_ok (snapshot_val w)
     \<and> val_loss (snapshot_val w) = Some (next_addr w)
     \<and> heap (snapshot_val w) (next_addr w) = heap w (loss_meter w)
     \<and> (\<exists>ns. val_metrics (snapshot_val w) = Some ns
            \<and> map (heap (snapshot_val w)) ns = map (heap w) (metric_meters w))
     \<and> (hooks_spare_meters E \<longrightarrow>
           snaps_ok (snd (epoch_body E trl st vl vs k w))
         \<and> snaps_ok (snd (fit E trl st vl vs epochs start w))
         \<and> (a \<in> snapshot_addrs w \<longrightarrow>
               heap (snd (validate E vl vs w)) a = heap w a
             \<and> heap (snd (evaluate E l s w)) a = heap w a
             \<and> heap (snd (epoch_body E trl st vl vs k w)) a = heap w a
             \<and> heap (snd (fit E trl st vl vs epochs start w)) a = heap w a))"
proof
  assume ok: "snaps_ok w"
  then have wf: "wf_heap w" by (simp add: snaps_ok_def)
  obtain h ns where t: "snapshot_train w =
         w\<lparr>heap := h, next_addr := Suc (next_addr w) + length (metric_meters w),
           train_loss := Some (next_addr w), train_metrics := Some ns\<rparr>"
    and th: "h (next_addr w) = heap w (loss_meter w)"
    using snapshot_train_frame[of w] by blast
  obtain h' ns' where v: "snapshot_val w =
         w\<lparr>heap := h', next_addr := Suc (next_addr w) + length (metric_meters w),
           val_loss := Some (next_addr w), val_metrics := Some ns'\<rparr>"
    and vh: "h' (next_addr w) = heap w (loss_meter w)"
    using snapshot_val_frame[of w] by blast
  have 1: "train_loss (snapshot_train w) = Some (next_addr w)
     \<and> heap (snapshot_train w) (next_addr w) = heap w (loss_meter w)"
    using th by (simp add: t)
  have 2: "val_loss (snapshot_val w) = Some (next_addr w)
     \<and> heap (snapshot_val w) (next_addr w) = heap w (loss_meter w)"
    using vh by (simp add: v)
  show "snaps_ok (snapshot_train w)
     \<and> train_loss (snapshot_train w) = Some (next_addr w)
     \<and> heap (snapshot_train w) (next_addr w) = heap w (loss_meter w)
     \<and> (\<exists>ns. train_metrics (snapshot_train w) = Some ns
            \<and> map (heap (snapshot_train w)) ns = map (heap w) (metric_meters w))
     \<and> snaps_ok (snapshot_val w)
     \<and> val_loss (snapshot_val w) = Some (next_addr w)
     \<and> heap (snapshot_val w) (next_addr w) = heap w (loss_meter w)
     \<and> (\<exists>ns. val_metrics (snapshot_val w) = Some ns
            \<and> map (heap (snapshot_val w)) ns = map (heap w) (metric_meters w))
     \<and> (hooks_spare_meters E \<longrightarrow>
           snaps_ok (snd (epoch_body E trl st vl vs k w))
         \<and> snaps_ok (snd (fit E trl st vl vs epochs start w))
         \<and> (a \<in> snapshot_addrs w \<longrightarrow>
               heap (snd (validate E vl vs w)) a = heap w a
             \<and> heap (snd (evaluate E l s w)) a = heap w a
             \<and> heap (snd (epoch_body E trl st vl vs k w)) a = heap w a
             \<and> heap (snd (fit E trl st vl vs epochs start w)) a = heap w a))"
    using 1 2 snaps_ok_snapshot_train[OF ok] snaps_ok_snapshot_val[OF ok]
      snapshot_train_content[OF wf] snapshot_val_content[OF wf]
      snaps_ok_kept(3)[OF ok, of E trl st vl vs k]
      snaps_ok_kept(4)[OF ok, of E trl st vl vs epochs start]
      snapshot_frame_all(1)[OF ok, of a E vl vs]
      snapshot_frame_all(2)[OF ok, of a E l s]
      snapshot_frame_all(3)[OF ok, of a E trl st vl vs k]
      snapshot_frame_all(4)[OF ok, of a E trl st vl vs epochs start]
    by simp
qed

theorem snapshots_are_independent_copies_witness:
  "train_loss (snapshot_train (update_at 5 0 (w0 False))) = Some 2
   \<and> msum (heap (snapshot_train (update_at 5 0 (w0 False))) 2) = 5
   \<and> heap (snd (validate env0 (Some loader2) None (snapshot_train (update_at 5 0 (w0 False))))) 2
       = heap (snapshot_train (update_at 5 0 (w0 False))) 2
   \<and> heap (snd (fit env0 loader2 None (Some loader2) None 3 1
                  (snapshot_train (update_at 5 0 (w0 False))))) 2
       = heap (snapshot_train (update_at 5 0 (w0 False))) 2"
proof -
  let ?w = "update_at 5 0 (w0 False)"
  have ok: "snaps_ok ?w"
    by (simp add: snaps_ok_def wf_heap_def snapshot_addrs_def update_at_def w0_def)
  have n: "next_addr ?w = 2" "loss_meter ?w = 0" "msum (heap ?w 0) = 5"
    by (simp_all add: update_at_def w0_def meter_update_def blank_def)
  have hs: "hooks_spare_meters env0"
    by (simp add: hooks_spare_meters_def hooks_keep_def env0_def)
  note a = snapshots_are_independent_copies[of ?w]
  from a[of env0 loader2 None None None 0 1 0 2 loader2 None] ok n
  have 1: "snaps_ok (snapshot_train ?w)" "train_loss (snapshot_train ?w) = Some 2"
    "msum (heap (snapshot_train ?w) 2) = 5"
    by simp_all
  from 1(2) have m: "2 \<in> snapshot_addrs (snapshot_train ?w)"
    by (simp add: snapshot_addrs_def)
  from snapshots_are_independent_copies[of "snapshot_train ?w" env0 loader2 None "Some loader2"
      None 0 3 1 2 loader2 None] 1 m hs
  show ?thesis by simp
qed

lemma seqs_raise:
  "seqs pre w = (Inr (), w1) \<Longrightarrow> m w1 = (Inl e, w2) \<Longrightarrow> seqs (pre @ m # post) w = (Inl e, w2)"
proof (induction pre arbitrary: w)
  case Nil
  then show ?case by simp
next
  case (Cons a pre)
  obtain r wa where a: "a w = (r, wa)" by (cases "a w")
  with Cons.prems(1) obtain u where r: "r = Inr u" and s: "seqs pre wa = (Inr (), w1)"
    by (cases r) auto
  from Cons.IH[OF s Cons.prems(2)] show ?case by (simp add: a r)
qed

lemma seqs_split_raise:
  "ms = pre @ m # post \<Longrightarrow> seqs pre w = (Inr (), w1) \<Longrightarrow> m w1 = (Inl e, w2) \<Longrightarrow>
   seqs ms w = (Inl e, w2)"
  by (simp only: seqs_raise)

lemma ext_raise:
  "g (params w) = Inl e \<Longrightarrow> ext ev g w = (Inl e, w\<lparr>trace := trace w @ [ev]\<rparr>)"
  by (simp add: ext_def Let_def)

lemma call_hooks_raise:
  assumes "call_hooks h k pre w = (Inr (), wa)" and "cb h = Some g"
    and "run_hook g (wa\<lparr>trace := trace wa @ [Call (k + length pre) h]\<rparr>) = (Inl e, wb)"
  shows "call_hooks h k (pre @ cb # post) w = (Inl e, wb)"
  using assms(1,3)
proof (induction pre arbitrary: k w)
  case Nil
  then show ?case using assms(2) by simp
next
  case (Cons c pre)
  show ?case
  proof (cases "c h")
    case None
    with Cons.prems(1) have "call_hooks h (Suc k) pre w = (Inr (), wa)" by simp
    from Cons.IH[OF this] Cons.prems(2) None show ?thesis by simp
  next
    case (Some f)
    let ?w1 = "w\<lparr>trace := trace w @ [Call k h]\<rparr>"
    obtain r w2 where f: "run_hook f ?w1 = (r, w2)" by (cases "run_hook f ?w1")
    with Cons.prems(1) Some obtain u where r: "r = Inr u"
      and s: "call_hooks h (Suc k) pre w2 = (Inr (), wa)"
      by (cases r) auto
    from Cons.IH[OF s] Cons.prems(2) Some f r show ?thesis by simp
  qed
qed

lemma emit_raise:
  assumes "callbacks E = pre @ cb # post"
    and "call_hooks h 0 pre (w\<lparr>trace := trace w @ [Emit h (epoch w) (is_train w) (step w)]\<rparr>)
           = (Inr (), wa)"
    and "cb h = Some g"
    and "run_hook g (wa\<lparr>trace := trace wa @ [Call (length pre) h]\<rparr>) = (Inl e, wb)"
  shows "emit E h w = (Inl e, wb)"
  using call_hooks_raise[where h = h and k = 0 and pre = pre and cb = cb and g = g and e = e
      and wa = wa and wb = wb and post = post] assms
  by (simp add: emit_def)

lemma make_step_forward_raise:
  "forward E (training w) (params w) x = Inl e \<Longrightarrow>
   make_step E (x, t) w = (Inl e, w\<lparr>st_input := Some (x, t)\<rparr>)"
  by (simp add: make_step_def bind_def modify_def get_def lift_def)

lemma make_step_criterion_raise:
  "forward E (training w) (params w) x = Inr out \<Longrightarrow> criterion E out t = Inl e \<Longrightarrow>
   make_step E (x, t) w = (Inl e, w\<lparr>st_input := Some (x, t), st_output := Some out\<rparr>)"
  by (simp add: make_step_def bind_def modify_def get_def lift_def)

lemma make_step_train_branch_raise:
  assumes "forward E (training w) (params w) x = Inr out" and "criterion E out t = Inr loss"
    and "is_train w"
    and "[ext ZeroGrad (zero_grad E), ext Backward (backward E loss), ext OptStep (opt_step E),
          ext Synchronize (synchronize E)] = pre @ m # post"
    and "seqs pre (w\<lparr>st_input := Some (x, t), st_output := Some out\<rparr>) = (Inr (), wa)"
    and "m wa = (Inl e, wb)"
  shows "make_step E (x, t) w = (Inl e, wb)"
proof -
  have "train_branch E loss (w\<lparr>st_input := Some (x, t), st_output := Some out\<rparr>) = (Inl e, wb)"
    unfolding train_branch_def by (rule seqs_split_raise[OF assms(4,5,6)])
  then show ?thesis
    using assms(1,2,3) by (simp add: make_step_def bind_def modify_def get_def lift_def)
qed

lemma make_step_to_numpy_raise:
  assumes "forward E (training w) (params w) x = Inr out" and "criterion E out t = Inr loss"
    and "(if is_train w then train_branch E loss else ret ())
           (w\<lparr>st_input := Some (x, t), st_output := Some out\<rparr>) = (Inr (), wa)"
    and "to_numpy E loss = Inl e"
  shows "make_step E (x, t) w = (Inl e, wa)"
  using assms by (simp add: make_step_def bind_def modify_def get_def lift_def)

lemma update_metric_raise:
  "mf out t = Inl e \<or> (\<exists>r. mf out t = Inr r \<and> to_numpy E r = Inl e) \<Longrightarrow>
   update_metric E out t (mf, a) w = (Inl e, w)"
  by (auto simp: update_metric_def bind_def lift_def)

lemma make_step_metric_raise:
  assumes "forward E (training w) (params w) x = Inr out" and "criterion E out t = Inr loss"
    and "(if is_train w then train_branch E loss else ret ())
           (w\<lparr>st_input := Some (x, t), st_output := Some out\<rparr>) = (Inr (), wa)"
    and "to_numpy E loss = Inr v"
    and "zip (metrics E) (metric_meters wa) = mpre @ (mf, a) # mpost"
    and "seqs (map (update_metric E out t) mpre) (update_at v (loss_meter wa) wa) = (Inr (), wb)"
    and "mf out t = Inl e \<or> (\<exists>r. mf out t = Inr r \<and> to_numpy E r = Inl e)"
  shows "make_step E (x, t) w = (Inl e, wb)"
proof -
  let ?w1 = "update_at v (loss_meter wa) wa"
  have mm: "metric_meters ?w1 = metric_meters wa" by (simp add: update_at_def)
  have "seqs (map (update_metric E out t) mpre @ update_metric E out t (mf, a) #
      map (update_metric E out t) mpost) ?w1 = (Inl e, wb)"
    using assms(6) update_metric_raise[where mf = mf and out = out and t = t and e = e and E = E
        and a = a and w = wb] assms(7)
    by (intro seqs_raise) simp_all
  then have "seqs (map (update_metric E out t) (zip (metrics E) (metric_meters ?w1))) ?w1
      = (Inl e, wb)"
    by (simp add: mm assms(5))
  then show ?thesis
    using assms(1,2,3,4)
    by (simp add: make_step_def bind_def modify_def get_def lift_def del: seqs.simps)
qed

lemma batch_body_raise:
  assumes "[modify (\<lambda>w. w\<lparr>step := i\<rparr>), emit E OnBatchBegin, make_step E b,
      bind (get verbose) (\<lambda>v. if v then bind (get desc) (\<lambda>d. log (SetPostfix d)) else ret ()),
      emit E OnBatchEnd] = pre @ m # post"
    and "seqs pre w = (Inr (), wa)" and "m wa = (Inl e, wb)"
  shows "batch_body E (i, b) w = (Inl e, wb)"
  unfolding batch_body_def prod.case by (rule seqs_split_raise[OF assms])

lemma batch_loop_raise:
  assumes "enumerate 0 (batches loader) = ipre @ ib # ipost"
    and "seqs (map (batch_body E) ipre) w = (Inr (), wa)" and "batch_body E ib wa = (Inl e, wb)"
  shows "batch_loop E loader w = (Inl e, wb)"
  unfolding batch_loop_def assms(1) map_append list.map
  using assms(2,3) by (rule seqs_raise)

lemma reset_all_grad [simp]: "grad_enabled (reset_all w) = grad_enabled w"
proof -
  obtain h where "reset_all w = w\<lparr>heap := h, trace := trace w @ [TimerReset]\<rparr>"
    using reset_all_frame by blast
  then show ?thesis by simp
qed

lemma run_one_epoch_raise:
  assumes "\<not> verbose w" and "steps_or_len steps loader = Inr n"
    and "batch_loop E loader ((reset_all w)\<lparr>ep_size := n, grad_enabled := is_train w\<rparr>) = (Inl e, w2)"
  shows "run_one_epoch E loader steps w = (Inl e, w2\<lparr>grad_enabled := grad_enabled w\<rparr>)"
  using assms by (simp add: run_one_epoch_unfold with_set_grad_enabled_def)

lemma evaluate_raise:
  "run_one_epoch E loader steps (w\<lparr>is_train := False, training := False\<rparr>) = (Inl e, w2) \<Longrightarrow>
   evaluate E loader steps w = (Inl e, w2)"
  by (simp add: evaluate_unfold)

lemma validate_raise:
  "evaluate E l vs w = (Inl e, w2) \<Longrightarrow> validate E (Some l) vs w = (Inl e, w2)"
  by (simp add: validate_def bind_def)

lemma epoch_body_raise:
  assumes "[modify (\<lambda>w. w\<lparr>is_train := True\<rparr>), modify (\<lambda>w. w\<lparr>epoch := k\<rparr>), emit E OnEpochBegin,
      modify (\<lambda>w. w\<lparr>training := True\<rparr>), run_one_epoch E trl st, modify snapshot_train,
      validate E vl vs, emit E OnEpochEnd] = pre @ m # post"
    and "seqs pre w = (Inr (), wa)" and "m wa = (Inl e, wb)"
  shows "epoch_body E trl st vl vs k w = (Inl e, wb)"
  unfolding epoch_body_def by (rule seqs_split_raise[OF assms])

lemma epoch_loop_raise:
  assumes "py_range start epochs = kpre @ k # kpost"
    and "seqs (map (epoch_body E trl st vl vs) kpre) w = (Inr (), wa)"
    and "epoch_body E trl st vl vs k wa = (Inl e, wb)"
  shows "seqs (map (epoch_body E trl st vl vs) (py_range start epochs)) w = (Inl e, wb)"
  unfolding assms(1) map_append list.map
  using assms(2,3) by (rule seqs_raise)

lemma fit_block_raise:
  assumes "[modify (\<lambda>w. w\<lparr>num_epochs := epochs\<rparr>),
      modify (\<lambda>w. w\<lparr>batch_size := (case batch_size_attr trl of Some b \<Rightarrow> b | None \<Rightarrow> 1)\<rparr>),
      emit E OnTrainBegin, seqs (map (epoch_body E trl st vl vs) (py_range start epochs)),
      emit E OnTrainEnd] = pre @ m # post"
    and "seqs pre w = (Inr (), wa)" and "m wa = (Inl e, wb)"
  shows "fit E trl st vl vs epochs start w = (Inl e, wb)"
  unfolding fit_def by (rule seqs_split_raise[OF assms])

lemma snapshots_conditions:
  "plain (\<lambda>_. True) snapshots" "heap_ok (\<lambda>_. True) snapshots" "quiet (\<lambda>_. True) snapshots ev"
  by (simp_all add: plain_def heap_ok_def quiet_def inert_def snapshots_def)

lemma keeps_snapshots_run_one_epoch:
  "hooks_keep (\<lambda>_. True) snapshots E \<Longrightarrow>
   keeps (\<lambda>_. True) snapshots (run_one_epoch E loader steps)"
  by (intro keeps_run_one_epoch snapshots_conditions disjI2 allI impI)
    (simp_all add: inert_def snapshots_def)

lemma keeps_snapshots_emit:
  "hooks_keep (\<lambda>_. True) snapshots E \<Longrightarrow> keeps (\<lambda>_. True) snapshots (emit E h)"
  by (intro keeps_emit snapshots_conditions)

lemma epoch_body_train_raise:
  assumes hk: "hooks_keep (\<lambda>_. True) snapshots E"
    and eb: "emit E OnEpochBegin (w\<lparr>is_train := True, epoch := k\<rparr>) = (Inr (), w1)"
    and tr: "run_one_epoch E trl st (w1\<lparr>training := True\<rparr>) = (Inl e, w2)"
  shows "epoch_body E trl st vl vs k w = (Inl e, w2)" and "snapshots w2 = snapshots w"
proof -
  show "epoch_body E trl st vl vs k w = (Inl e, w2)"
    by (rule epoch_body_raise[where pre = "[modify (\<lambda>w. w\<lparr>is_train := True\<rparr>),
        modify (\<lambda>w. w\<lparr>epoch := k\<rparr>), emit E OnEpochBegin, modify (\<lambda>w. w\<lparr>training := True\<rparr>)]"
        and m = "run_one_epoch E trl st" and wa = "w1\<lparr>training := True\<rparr>"])
      (simp_all add: modify_def eb tr)
  have "snapshots w1 = snapshots (w\<lparr>is_train := True, epoch := k\<rparr>)"
    using keeps_snapshots_emit[OF hk, of OnEpochBegin] eb
    by (auto simp: keeps_def dest!: spec[of _ "w\<lparr>is_train := True, epoch := k\<rparr>"])
  moreover have "snapshots w2 = snapshots (w1\<lparr>training := True\<rparr>)"
    using keeps_snapshots_run_one_epoch[OF hk, of trl st] tr
    by (auto simp: keeps_def dest!: spec[of _ "w1\<lparr>training := True\<rparr>"])
  ultimately show "snapshots w2 = snapshots w" by (simp add: snapshots_def)
qed

lemma epoch_body_val_raise:
  assumes hk: "hooks_keep (\<lambda>_. True) snapshots E"
    and eb: "emit E OnEpochBegin (w\<lparr>is_train := True, epoch := k\<rparr>) = (Inr (), w1)"
    and tr: "run_one_epoch E trl st (w1\<lparr>training := True\<rparr>) = (Inr (), w2)"
    and ev: "evaluate E l vs (snapshot_train w2) = (Inl e, w3)"
  shows "epoch_body E trl st (Some l) vs k w = (Inl e, w3)"
    and "train_loss w3 = Some (next_addr w2)"
    and "val_loss w3 = val_loss w" and "val_metrics w3 = val_metrics w"
proof -
  have v: "validate E (Some l) vs (snapshot_train w2) = (Inl e, w3)"
    using ev by (rule validate_raise)
  show "epoch_body E trl st (Some l) vs k w = (Inl e, w3)"
    by (rule epoch_body_raise[where pre = "[modify (\<lambda>w. w\<lparr>is_train := True\<rparr>),
        modify (\<lambda>w. w\<lparr>epoch := k\<rparr>), emit E OnEpochBegin, modify (\<lambda>w. w\<lparr>training := True\<rparr>),
        run_one_epoch E trl st, modify snapshot_train]"
        and m = "validate E (Some l) vs" and wa = "snapshot_train w2"])
      (simp_all add: modify_def eb tr v)
  have 1: "snapshots w1 = snapshots (w\<lparr>is_train := True, epoch := k\<rparr>)"
    using keeps_snapshots_emit[OF hk, of OnEpochBegin] eb
    by (auto simp: keeps_def dest!: spec[of _ "w\<lparr>is_train := True, epoch := k\<rparr>"])
  have 2: "snapshots w2 = snapshots (w1\<lparr>training := True\<rparr>)"
    using keeps_snapshots_run_one_epoch[OF hk, of trl st] tr
    by (auto simp: keeps_def dest!: spec[of _ "w1\<lparr>training := True\<rparr>"])
  obtain h ns where t: "snapshot_train w2 =
         w2\<lparr>heap := h, next_addr := Suc (next_addr w2) + length (metric_meters w2),
           train_loss := Some (next_addr w2), train_metrics := Some ns\<rparr>"
    using snapshot_train_frame[of w2] by blast
  let ?w = "(snapshot_train w2)\<lparr>is_train := False, training := False\<rparr>"
  from ev have "w3 = snd (run_one_epoch E l vs ?w)"
    by (cases "run_one_epoch E l vs ?w") (auto simp: evaluate_unfold split: sum.splits)
  then have 3: "snapshots w3 = snapshots ?w"
    using keeps_snapshots_run_one_epoch[OF hk, of l vs] by (simp add: keeps_def)
  from 1 2 3 show "train_loss w3 = Some (next_addr w2)"
    and "val_loss w3 = val_loss w" and "val_metrics w3 = val_metrics w"
    by (simp_all add: snapshots_def t)
qed

lemma py_range_split:
  "start \<le> k \<Longrightarrow> k < epochs \<Longrightarrow> py_range start epochs = py_range start k @ k # py_range (k + 1) epochs"
  using upto_split3[of start k "epochs - 1"] by (simp add: py_range_def)

lemma fit_epoch_raise:
  assumes k: "start \<le> k" "k < epochs"
    and tb: "emit E OnTrainBegin (w\<lparr>num_epochs := epochs,
       batch_size := (case batch_size_attr trl of Some b \<Rightarrow> b | None \<Rightarrow> 1)\<rparr>) = (Inr (), w1)"
    and pre: "seqs (map (epoch_body E trl st vl vs) (py_range start k)) w1 = (Inr (), w2)"
    and ep: "epoch_body E trl st vl vs k w2 = (Inl e, w3)"
  shows "fit E trl st vl vs epochs start w = (Inl e, w3)"
proof -
  have lp: "seqs (map (epoch_body E trl st vl vs) (py_range start epochs)) w1 = (Inl e, w3)"
    using py_range_split[OF k] pre ep by (rule epoch_loop_raise)
  show ?thesis
    by (rule fit_block_raise[where pre = "[modify (\<lambda>w. w\<lparr>num_epochs := epochs\<rparr>),
        modify (\<lambda>w. w\<lparr>batch_size := (case batch_size_attr trl of Some b \<Rightarrow> b | None \<Rightarrow> 1)\<rparr>),
        emit E OnTrainBegin]"
        and m = "seqs (map (epoch_body E trl st vl vs) (py_range start epochs))" and wa = w1])
      (simp_all add: modify_def tb lp)
qed

lemma emit_nil:
  "callbacks E = [] \<Longrightarrow>
   emit E h w = (Inr (), w\<lparr>trace := trace w @ [Emit h (epoch w) (is_train w) (step w)]\<rparr>)"
  by (simp add: emit_def)

lemma callbacks_env_picky: "callbacks env_picky = []"
  by (simp add: env_picky_def env0_def)

lemma forward_env_picky: "forward env_picky tr p (- 1) = Inl bad_input"
  by (simp add: env_picky_def)

lemma bad_batch_loop:
  "batch_loop env_picky bad_loader w =
     (Inl bad_input, w\<lparr>step := 0, trace := trace w @ [Emit OnBatchBegin (epoch w) (is_train w) 0],
        st_input := Some (- 1, 0)\<rparr>)"
proof -
  let ?w1 = "w\<lparr>step := 0, trace := trace w @ [Emit OnBatchBegin (epoch w) (is_train w) 0]\<rparr>"
  have "emit env_picky OnBatchBegin (w\<lparr>step := 0\<rparr>) = (Inr (), ?w1)"
    by (simp add: emit_nil callbacks_env_picky)
  moreover have "make_step env_picky (- 1, 0) ?w1 = (Inl bad_input, ?w1\<lparr>st_input := Some (- 1, 0)\<rparr>)"
    by (rule make_step_forward_raise) (rule forward_env_picky)
  ultimately have "batch_body env_picky (0, (- 1, 0)) w = (Inl bad_input, ?w1\<lparr>st_input := Some (- 1, 0)\<rparr>)"
    by (intro batch_body_raise[where pre = "[modify (\<lambda>w. w\<lparr>step := 0\<rparr>),
        emit env_picky OnBatchBegin]" and m = "make_step env_picky (- 1, 0)" and wa = ?w1])
      (simp_all add: modify_def)
  then show ?thesis
    by (simp add: batch_loop_def bad_loader_def seqs_single del: seqs.simps)
qed

lemma bad_run_one_epoch:
  assumes "\<not> verbose w"
  shows "fst (run_one_epoch env_picky bad_loader None w) = Inl bad_input"
proof -
  have "steps_or_len None bad_loader = Inr 1"
    by (simp add: steps_or_len_def py_len_def bad_loader_def)
  from run_one_epoch_raise[OF assms this bad_batch_loop] show ?thesis by simp
qed

lemma bad_evaluate:
  assumes "\<not> verbose w"
  shows "fst (evaluate env_picky bad_loader None w) = Inl bad_input"
proof -
  let ?w = "w\<lparr>is_train := False, training := False\<rparr>"
  have "fst (run_one_epoch env_picky bad_loader None ?w) = Inl bad_input"
    by (rule bad_run_one_epoch) (simp add: assms)
  then have "run_one_epoch env_picky bad_loader None ?w
      = (Inl bad_input, snd (run_one_epoch env_picky bad_loader None ?w))"
    by (metis prod.collapse)
  from evaluate_raise[OF this] show ?thesis by simp
qed

lemma good_train_pass: "fst (run_one_epoch env_picky loader1 None w_start) = Inr ()"
  by code_simp

lemma good_train_pass_quiet: "\<not> verbose (snapshot_train (snd (run_one_epoch env_picky loader1 None w_start)))"
  by code_simp

lemma fit_start:
  "emit env_picky OnTrainBegin ((w0 False)\<lparr>num_epochs := 1,
       batch_size := (case batch_size_attr l of Some b \<Rightarrow> b | None \<Rightarrow> 1)\<rparr>)
     = (Inr (), (w0 False)\<lparr>num_epochs := 1,
         batch_size := (case batch_size_attr l of Some b \<Rightarrow> b | None \<Rightarrow> 1),
         trace := [Emit OnTrainBegin 0 False 0]\<rparr>)"
  by (simp add: emit_nil callbacks_env_picky w0_def)

lemma epoch_start:
  "emit env_picky OnEpochBegin ((w0 False)\<lparr>num_epochs := 1, batch_size := b,
       trace := [Emit OnTrainBegin 0 False 0], is_train := True, epoch := 0\<rparr>)
     = (Inr (), (w0 False)\<lparr>num_epochs := 1, batch_size := b,
         trace := [Emit OnTrainBegin 0 False 0], is_train := True, epoch := 0,
         trace := [Emit OnTrainBegin 0 False 0, Emit OnEpochBegin 0 True 0]\<rparr>)"
  by (simp add: emit_nil callbacks_env_picky w0_def)

lemma val_scenario:
  "\<exists>wa wc wd we.
     emit env_picky OnTrainBegin ((w0 False)\<lparr>num_epochs := 1,
       batch_size := (case batch_size_attr loader1 of Some b \<Rightarrow> b | None \<Rightarrow> 1)\<rparr>) = (Inr (), wa)
     \<and> seqs (map (epoch_body env_picky loader1 None (Some bad_loader) None) (py_range 0 0)) wa
         = (Inr (), wa)
     \<and> emit env_picky OnEpochBegin (wa\<lparr>is_train := True, epoch := 0\<rparr>) = (Inr (), wc)
     \<and> run_one_epoch env_picky loader1 None (wc\<lparr>training := True\<rparr>) = (Inr (), wd)
     \<and> evaluate env_picky bad_loader None (snapshot_train wd) = (Inl bad_input, we)
     \<and> val_loss wa = None \<and> val_metrics wa = None"
proof -
  let ?b = "case batch_size_attr loader1 of Some b \<Rightarrow> b | None \<Rightarrow> 1"
  let ?wa = "(w0 False)\<lparr>num_epochs := 1, batch_size := ?b, trace := [Emit OnTrainBegin 0 False 0]\<rparr>"
  let ?wc = "(w0 False)\<lparr>num_epochs := 1, batch_size := ?b,
         trace := [Emit OnTrainBegin 0 False 0], is_train := True, epoch := 0,
         trace := [Emit OnTrainBegin 0 False 0, Emit OnEpochBegin 0 True 0]\<rparr>"
  let ?wd = "snd (run_one_epoch env_picky loader1 None w_start)"
  let ?we = "snd (evaluate env_picky bad_loader None (snapshot_train ?wd))"
  have ws: "?wc\<lparr>training := True\<rparr> = w_start"
    by (simp add: w_start_def loader1_def)
  have 1: "emit env_picky OnTrainBegin ((w0 False)\<lparr>num_epochs := 1, batch_size := ?b\<rparr>) = (Inr (), ?wa)"
    by (rule fit_start)
  have 2: "seqs (map (epoch_body env_picky loader1 None (Some bad_loader) None) (py_range 0 0)) ?wa
         = (Inr (), ?wa)"
    by (simp add: py_range_def)
  have 3: "emit env_picky OnEpochBegin (?wa\<lparr>is_train := True, epoch := 0\<rparr>) = (Inr (), ?wc)"
    by (rule epoch_start)
  have 4: "run_one_epoch env_picky loader1 None (?wc\<lparr>training := True\<rparr>) = (Inr (), ?wd)"
    unfolding ws using good_train_pass by (metis prod.collapse)
  have 5: "evaluate env_picky bad_loader None (snapshot_train ?wd) = (Inl bad_input, ?we)"
    using bad_evaluate[OF good_train_pass_quiet] by (metis prod.collapse)
  have 6: "val_loss ?wa = None" "val_metrics ?wa = None"
    by (simp_all add: w0_def)
  from 1 2 3 4 5 6 show ?thesis by blast
qed

lemma train_scenario:
  "\<exists>wa wc wd.
     emit env_picky OnTrainBegin ((w0 False)\<lparr>num_epochs := 1,
       batch_size := (case batch_size_attr bad_loader of Some b \<Rightarrow> b | None \<Rightarrow> 1)\<rparr>) = (Inr (), wa)
     \<and> seqs (map (epoch_body env_picky bad_loader None None None) (py_range 0 0)) wa = (Inr (), wa)
     \<and> emit env_picky OnEpochBegin (wa\<lparr>is_train := True, epoch := 0\<rparr>) = (Inr (), wc)
     \<and> run_one_epoch env_picky bad_loader None (wc\<lparr>training := True\<rparr>) = (Inl bad_input, wd)
     \<and> snapshots wa = (None, None, None, None)"
proof -
  let ?b = "case batch_size_attr bad_loader of Some b \<Rightarrow> b | None \<Rightarrow> 1"
  let ?wa = "(w0 False)\<lparr>num_epochs := 1, batch_size := ?b, trace := [Emit OnTrainBegin 0 False 0]\<rparr>"
  let ?wc = "(w0 False)\<lparr>num_epochs := 1, batch_size := ?b,
         trace := [Emit OnTrainBegin 0 False 0], is_train := True, epoch := 0,
         trace := [Emit OnTrainBegin 0 False 0, Emit OnEpochBegin 0 True 0]\<rparr>"
  let ?wd = "snd (run_one_epoch env_picky bad_loader None (?wc\<lparr>training := True\<rparr>))"
  have 1: "emit env_picky OnTrainBegin ((w0 False)\<lparr>num_epochs := 1, batch_size := ?b\<rparr>) = (Inr (), ?wa)"
    by (rule fit_start)
  have 2: "seqs (map (epoch_body env_picky bad_loader None None None) (py_range 0 0)) ?wa = (Inr (), ?wa)"
    by (simp add: py_range_def)
  have 3: "emit env_picky OnEpochBegin (?wa\<lparr>is_train := True, epoch := 0\<rparr>) = (Inr (), ?wc)"
    by (rule epoch_start)
  have "\<not> verbose (?wc\<lparr>training := True\<rparr>)" by (simp add: w0_def)
  from bad_run_one_epoch[OF this]
  have 4: "run_one_epoch env_picky bad_loader None (?wc\<lparr>training := True\<rparr>) = (Inl bad_input, ?wd)"
    by (metis prod.collapse)
  have 5: "snapshots ?wa = (None, None, None, None)"
    by (simp add: snapshots_def w0_def)
  from 1 2 3 4 5 show ?thesis by blast
qed

text \<open>
  C9, as amended. Nothing is caught and nothing is retried: every raise ends every enclosing
  block of the driver with the same error, in the world where it was raised.

  \<^item> A call into model or optimizer that raises ends with that error, and so does an event
    in which a callback raises once the callbacks registered before it have returned: the
    callbacks registered after it do not run.
  \<^item> \<^verbatim>\<open>_make_step\<close> raises what the model raises, what the criterion raises, what any of the
    four calls of its training branch raises (gradient clear, backward pass, optimizer step,
    synchronisation), what reading the loss raises, and what a metric or reading its value
    raises once the metrics before it are recorded.
  \<^item> A raise of any statement of a batch ends the batch, a raise of any batch ends the batch
    loop, a raise of the batch loop ends \<^verbatim>\<open>_run_one_epoch\<close> (the gradient mode restored), a
    raise there ends \<^verbatim>\<open>evaluate\<close>, a raise of \<^verbatim>\<open>evaluate\<close> ends the validation step, a raise of
    any statement of an epoch ends the epoch, a raise of any epoch ends the epoch loop, and
    a raise of any statement of \<^verbatim>\<open>fit\<close> ends \<^verbatim>\<open>fit\<close>: \<^verbatim>\<open>on_train_end\<close> is not emitted.
  \<^item> As long as no hook writes the snapshot fields: a raise in the training pass of epoch
    \<open>k\<close> ends \<^verbatim>\<open>fit\<close> with the four snapshot fields as they were before the epoch; a raise in
    the validation pass of epoch \<open>k\<close> ends \<^verbatim>\<open>fit\<close> with the validation snapshot as it was
    before the epoch, but with the training snapshot of epoch \<open>k\<close> already taken.
\<close>

theorem exceptions_propagate:
  "(g (params w) = Inl e \<longrightarrow> ext ev g w = (Inl e, w\<lparr>trace := trace w @ [ev]\<rparr>))
   \<and> (callbacks E = cpre @ cb # cpost \<and>
      call_hooks h 0 cpre (w\<lparr>trace := trace w @ [Emit h (epoch w) (is_train w) (step w)]\<rparr>)
        = (Inr (), wa) \<and>
      cb h = Some hk \<and>
      run_hook hk (wa\<lparr>trace := trace wa @ [Call (length cpre) h]\<rparr>) = (Inl e, wb) \<longrightarrow>
      emit E h w = (Inl e, wb))
   \<and> (forward E (training w) (params w) x = Inl e \<longrightarrow>
      make_step E (x, t) w = (Inl e, w\<lparr>st_input := Some (x, t)\<rparr>))
   \<and> (forward E (training w) (params w) x = Inr out \<and> criterion E out t = Inl e \<longrightarrow>
      make_step E (x, t) w = (Inl e, w\<lparr>st_input := Some (x, t), st_output := Some out\<rparr>))
   \<and> (forward E (training w) (params w) x = Inr out \<and> criterion E out t = Inr loss \<and>
      is_train w \<and>
      [ext ZeroGrad (zero_grad E), ext Backward (backward E loss), ext OptStep (opt_step E),
       ext Synchronize (synchronize E)] = pre @ m # post \<and>
      seqs pre (w\<lparr>st_input := Some (x, t), st_output := Some out\<rparr>) = (Inr (), wa) \<and>
      m wa = (Inl e, wb) \<longrightarrow>
      make_step E (x, t) w = (Inl e, wb))
   \<and> (forward E (training w) (params w) x = Inr out \<and> criterion E out t = Inr loss \<and>
      (if is_train w then train_branch E loss else ret ())
        (w\<lparr>st_input := Some (x, t), st_output := Some out\<rparr>) = (Inr (), wa) \<and>
      to_numpy E loss = Inl e \<longrightarrow>
      make_step E (x, t) w = (Inl e, wa))
   \<and> (forward E (training w) (params w) x = Inr out \<and> criterion E out t = Inr loss \<and>
      (if is_train w then train_branch E loss else ret ())
        (w\<lparr>st_input := Some (x, t), st_output := Some out\<rparr>) = (Inr (), wa) \<and>
      to_numpy E loss = Inr v \<and>
      zip (metrics E) (metric_meters wa) = mpre @ (mf, a) # mpost \<and>
      seqs (map (update_metric E out t) mpre) (update_at v (loss_meter wa) wa) = (Inr (), wb) \<and>
      (mf out t = Inl e \<or> (\<exists>r. mf out t = Inr r \<and> to_numpy E r = Inl e)) \<longrightarrow>
      make_step E (x, t) w = (Inl e, wb))
   \<and> ([modify (\<lambda>w. w\<lparr>step := i\<rparr>), emit E OnBatchBegin, make_step E b,
       bind (get verbose) (\<lambda>v. if v then bind (get desc) (\<lambda>d. log (SetPostfix d)) else ret ()),
       emit E OnBatchEnd] = pre @ m # post \<and>
      seqs pre w = (Inr (), wa) \<and> m wa = (Inl e, wb) \<longrightarrow>
      batch_body E (i, b) w = (Inl e, wb))
   \<and> (enumerate 0 (batches loader) = ipre @ ib # ipost \<and>
      seqs (map (batch_body E) ipre) w = (Inr (), wa) \<and> batch_body E ib wa = (Inl e, wb) \<longrightarrow>
      batch_loop E loader w = (Inl e, wb))
   \<and> (\<not> verbose w \<and> steps_or_len steps loader = Inr n \<and>
      batch_loop E loader ((reset_all w)\<lparr>ep_size := n, grad_enabled := is_train w\<rparr>) = (Inl e, wb) \<longrightarrow>
      run_one_epoch E loader steps w = (Inl e, wb\<lparr>grad_enabled := grad_enabled w\<rparr>))
   \<and> (run_one_epoch E loader steps (w\<lparr>is_train := False, training := False\<rparr>) = (Inl e, wb) \<longrightarrow>
      evaluate E loader steps w = (Inl e, wb))
   \<and> (evaluate E l vs w = (Inl e, wb) \<longrightarrow> validate E (Some l) vs w = (Inl e, wb))
   \<and> ([modify (\<lambda>w. w\<lparr>is_train := True\<rparr>), modify (\<lambda>w. w\<lparr>epoch := k\<rparr>), emit E OnEpochBegin,
       modify (\<lambda>w. w\<lparr>training := True\<rparr>), run_one_epoch E trl st, modify snapshot_train,
       validate E vl vs, emit E OnEpochEnd] = pre @ m # post \<and>
      seqs pre w = (Inr (), wa) \<and> m wa = (Inl e, wb) \<longrightarrow>
      epoch_body E trl st vl vs k w = (Inl e, wb))
   \<and> (py_range start epochs = kpre @ k # kpost \<and>
      seqs (map (epoch_body E trl st vl vs) kpre) w = (Inr (), wa) \<and>
      epoch_body E trl st vl vs k wa = (Inl e, wb) \<longrightarrow>
      seqs (map (epoch_body E trl st vl vs) (py_range start epochs)) w = (Inl e, wb))
   \<and> ([modify (\<lambda>w. w\<lparr>num_epochs := epochs\<rparr>),
       modify (\<lambda>w. w\<lparr>batch_size := (case batch_size_attr trl of Some b \<Rightarrow> b | None \<Rightarrow> 1)\<rparr>),
       emit E OnTrainBegin, seqs (map (epoch_body E trl st vl vs) (py_range start epochs)),
       emit E OnTrainEnd] = pre @ m # post \<and>
      seqs pre w = (Inr (), wa) \<and> m wa = (Inl e, wb) \<longrightarrow>
      fit E trl st vl vs epochs start w = (Inl e, wb))
   \<and> (hooks_keep (\<lambda>_. True) snapshots E \<and> start \<le> k \<and> k < epochs \<and>
      emit E OnTrainBegin (w\<lparr>num_epochs := epochs,
        batch_size := (case batch_size_attr trl of Some b \<Rightarrow> b | None \<Rightarrow> 1)\<rparr>) = (Inr (), wa) \<and>
      seqs (map (epoch_body E trl st vl vs) (py_range start k)) wa = (Inr (), wb) \<and>
      emit E OnEpochBegin (wb\<lparr>is_train := True, epoch := k\<rparr>) = (Inr (), wc) \<and>
      run_one_epoch E trl st (wc\<lparr>training := True\<rparr>) = (Inl e, wd) \<longrightarrow>
      fit E trl st vl vs epochs start w = (Inl e, wd) \<and> snapshots wd = snapshots wb)
   \<and> (hooks_keep (\<lambda>_. True) snapshots E \<and> start \<le> k \<and> k < epochs \<and>
      emit E OnTrainBegin (w\<lparr>num_epochs := epochs,
        batch_size := (case batch_size_attr trl of Some b \<Rightarrow> b | None \<Rightarrow> 1)\<rparr>) = (Inr (), wa) \<and>
      seqs (map (epoch_body E trl st (Some l) vs) (py_range start k)) wa = (Inr (), wb) \<and>
      emit E OnEpochBegin (wb\<lparr>is_train := True, epoch := k\<rparr>) = (Inr (), wc) \<and>
      run_one_epoch E trl st (wc\<lparr>training := True\<rparr>) = (Inr (), wd) \<and>
      evaluate E l vs (snapshot_train wd) = (Inl e, we) \<longrightarrow>
      fit E trl st (Some l) vs epochs start w = (Inl e, we) \<and>
      train_loss we = Some (next_addr wd) \<and>
      val_loss we = val_loss wb \<and> val_metrics we = val_metrics wb)"
proof (intro conjI impI; (elim conjE)?)
  show "ext ev g w = (Inl e, w\<lparr>trace := trace w @ [ev]\<rparr>)" if "g (params w) = Inl e"
    using that by (rule ext_raise)
  show "emit E h w = (Inl e, wb)"
    if "callbacks E = cpre @ cb # cpost"
      "call_hooks h 0 cpre (w\<lparr>trace := trace w @ [Emit h (epoch w) (is_train w) (step w)]\<rparr>)
        = (Inr (), wa)"
      "cb h = Some hk"
      "run_hook hk (wa\<lparr>trace := trace wa @ [Call (length cpre) h]\<rparr>) = (Inl e, wb)"
    using that by (rule emit_raise)
  show "make_step E (x, t) w = (Inl e, w\<lparr>st_input := Some (x, t)\<rparr>)"
    if "forward E (training w) (params w) x = Inl e"
    using that by (rule make_step_forward_raise)
  show "make_step E (x, t) w = (Inl e, w\<lparr>st_input := Some (x, t), st_output := Some out\<rparr>)"
    if "forward E (training w) (params w) x = Inr out" "criterion E out t = Inl e"
    using that by (rule make_step_criterion_raise)
  show "make_step E (x, t) w = (Inl e, wb)"
    if "forward E (training w) (params w) x = Inr out" "criterion E out t = Inr loss" "is_train w"
      "[ext ZeroGrad (zero_grad E), ext Backward (backward E loss), ext OptStep (opt_step E),
       ext Synchronize (synchronize E)] = pre @ m # post"
      "seqs pre (w\<lparr>st_input := Some (x, t), st_output := Some out\<rparr>) = (Inr (), wa)"
      "m wa = (Inl e, wb)"
    using that by (rule make_step_train_branch_raise)
  show "make_step E (x, t) w = (Inl e, wa)"
    if "forward E (training w) (params w) x = Inr out" "criterion E out t = Inr loss"
      "(if is_train w then train_branch E loss else ret ())
        (w\<lparr>st_input := Some (x, t), st_output := Some out\<rparr>) = (Inr (), wa)"
      "to_numpy E loss = Inl e"
    using that by (rule make_step_to_numpy_raise)
  show "make_step E (x, t) w = (Inl e, wb)"
    if "forward E (training w) (params w) x = Inr out" "criterion E out t = Inr loss"
      "(if is_train w then train_branch E loss else ret ())
        (w\<lparr>st_input := Some (x, t), st_output := Some out\<rparr>) = (Inr (), wa)"
      "to_numpy E loss = Inr v"
      "zip (metrics E) (metric_meters wa) = mpre @ (mf, a) # mpost"
      "seqs (map (update_metric E out t) mpre) (update_at v (loss_meter wa) wa) = (Inr (), wb)"
      "mf out t = Inl e \<or> (\<exists>r. mf out t = Inr r \<and> to_numpy E r = Inl e)"
    using that by (rule make_step_metric_raise)
  show "batch_body E (i, b) w = (Inl e, wb)"
    if "[modify (\<lambda>w. w\<lparr>step := i\<rparr>), emit E OnBatchBegin, make_step E b,
       bind (get verbose) (\<lambda>v. if v then bind (get desc) (\<lambda>d. log (SetPostfix d)) else ret ()),
       emit E OnBatchEnd] = pre @ m # post"
      "seqs pre w = (Inr (), wa)" "m wa = (Inl e, wb)"
    using that by (rule batch_body_raise)
  show "batch_loop E loader w = (Inl e, wb)"
    if "enumerate 0 (batches loader) = ipre @ ib # ipost"
      "seqs (map (batch_body E) ipre) w = (Inr (), wa)" "batch_body E ib wa = (Inl e, wb)"
    using that by (rule batch_loop_raise)
  show "run_one_epoch E loader steps w = (Inl e, wb\<lparr>grad_enabled := grad_enabled w\<rparr>)"
    if "\<not> verbose w" "steps_or_len steps loader = Inr n"
      "batch_loop E loader ((reset_all w)\<lparr>ep_size := n, grad_enabled := is_train w\<rparr>) = (Inl e, wb)"
    using that by (rule run_one_epoch_raise)
  show "evaluate E loader steps w = (Inl e, wb)"
    if "run_one_epoch E loader steps (w\<lparr>is_train := False, training := False\<rparr>) = (Inl e, wb)"
    using that by (rule evaluate_raise)
  show "validate E (Some l) vs w = (Inl e, wb)" if "evaluate E l vs w = (Inl e, wb)"
    using that by (rule validate_raise)
  show "epoch_body E trl st vl vs k w = (Inl e, wb)"
    if "[modify (\<lambda>w. w\<lparr>is_train := True\<rparr>), modify (\<lambda>w. w\<lparr>epoch := k\<rparr>), emit E OnEpochBegin,
       modify (\<lambda>w. w\<lparr>training := True\<rparr>), run_one_epoch E trl st, modify snapshot_train,
       validate E vl vs, emit E OnEpochEnd] = pre @ m # post"
      "seqs pre w = (Inr (), wa)" "m wa = (Inl e, wb)"
    using that by (rule epoch_body_raise)
  show "seqs (map (epoch_body E trl st vl vs) (py_range start epochs)) w = (Inl e, wb)"
    if "py_range start epochs = kpre @ k # kpost"
      "seqs (map (epoch_body E trl st vl vs) kpre) w = (Inr (), wa)"
      "epoch_body E trl st vl vs k wa = (Inl e, wb)"
    using that by (rule epoch_loop_raise)
  show "fit E trl st vl vs epochs start w = (Inl e, wb)"
    if "[modify (\<lambda>w. w\<lparr>num_epochs := epochs\<rparr>),
       modify (\<lambda>w. w\<lparr>batch_size := (case batch_size_attr trl of Some b \<Rightarrow> b | None \<Rightarrow> 1)\<rparr>),
       emit E OnTrainBegin, seqs (map (epoch_body E trl st vl vs) (py_range start epochs)),
       emit E OnTrainEnd] = pre @ m # post"
      "seqs pre w = (Inr (), wa)" "m wa = (Inl e, wb)"
    using that by (rule fit_block_raise)
next
  assume hk: "hooks_keep (\<lambda>_. True) snapshots E" and k: "start \<le> k" "k < epochs"
    and tb: "emit E OnTrainBegin (w\<lparr>num_epochs := epochs,
        batch_size := (case batch_size_attr trl of Some b \<Rightarrow> b | None \<Rightarrow> 1)\<rparr>) = (Inr (), wa)"
    and pre: "seqs (map (epoch_body E trl st vl vs) (py_range start k)) wa = (Inr (), wb)"
    and eb: "emit E OnEpochBegin (wb\<lparr>is_train := True, epoch := k\<rparr>) = (Inr (), wc)"
    and tr: "run_one_epoch E trl st (wc\<lparr>training := True\<rparr>) = (Inl e, wd)"
  have "epoch_body E trl st vl vs k wb = (Inl e, wd)" and s: "snapshots wd = snapshots wb"
    using hk eb tr by (rule epoch_body_train_raise)+
  from fit_epoch_raise[OF k tb pre this(1)] s
  show "fit E trl st vl vs epochs start w = (Inl e, wd)" "snapshots wd = snapshots wb" .
next
  assume hk: "hooks_keep (\<lambda>_. True) snapshots E" and k: "start \<le> k" "k < epochs"
    and tb: "emit E OnTrainBegin (w\<lparr>num_epochs := epochs,
        batch_size := (case batch_size_attr trl of Some b \<Rightarrow> b | None \<Rightarrow> 1)\<rparr>) = (Inr (), wa)"
    and pre: "seqs (map (epoch_body E trl st (Some l) vs) (py_range start k)) wa = (Inr (), wb)"
    and eb: "emit E OnEpochBegin (wb\<lparr>is_train := True, epoch := k\<rparr>) = (Inr (), wc)"
    and tr: "run_one_epoch E trl st (wc\<lparr>training := True\<rparr>) = (Inr (), wd)"
    and ev: "evaluate E l vs (snapshot_train wd) = (Inl e, we)"
  note r = epoch_body_val_raise[OF hk eb tr ev]
  from fit_epoch_raise[OF k tb pre r(1)] r(2-4)
  show "fit E trl st (Some l) vs epochs start w = (Inl e, we)"
    "train_loss we = Some (next_addr wd)" "val_loss we = val_loss wb" "val_metrics we = val_metrics wb" .
qed

theorem exceptions_propagate_witness:
  "fst (ext OptStep (opt_step env_stuck) (w0 False)) = Inl stuck
   \<and> emit env_alarm OnBatchBegin (w0 False)
       = (Inl alarm_error, (w0 False)\<lparr>trace := [Emit OnBatchBegin 0 False 0, Call 1 OnBatchBegin]\<rparr>)
   \<and> fst (make_step env_picky (- 1, 0) (w0 False)) = Inl bad_input
   \<and> fst (make_step (env0\<lparr>criterion := (\<lambda>_ _. Inl bad_input)\<rparr>) (1, 0) (w0 False)) = Inl bad_input
   \<and> fst (make_step env_stuck (1, 0) ((w0 False)\<lparr>is_train := True\<rparr>)) = Inl stuck
   \<and> fst (make_step (env0\<lparr>to_numpy := (\<lambda>_. Inl bad_input)\<rparr>) (1, 0) (w0 False)) = Inl bad_input
   \<and> fst (make_step (env0\<lparr>metrics := [\<lambda>_ _. Inl bad_input]\<rparr>) (1, 0) (w0 False)) = Inl bad_input
   \<and> fst (batch_body env_alarm (0, (1, 0)) (w0 False)) = Inl alarm_error
   \<and> fst (batch_loop env_alarm loader2 (w0 False)) = Inl alarm_error
   \<and> fst (run_one_epoch env_alarm loader2 None (w0 False)) = Inl alarm_error
   \<and> fst (evaluate env_alarm loader2 None (w0 False)) = Inl alarm_error
   \<and> fst (validate env_alarm (Some loader2) None (w0 False)) = Inl alarm_error
   \<and> fst (epoch_body env_alarm loader2 None None None 0 (w0 False)) = Inl alarm_error
   \<and> fst (seqs (map (epoch_body env_alarm loader2 None None None) (py_range 0 2)) (w0 False))
       = Inl alarm_error
   \<and> fst (fit env_alarm loader2 None None None 2 0 (w0 False)) = Inl alarm_error
   \<and> fst (fit env_picky bad_loader None None None 1 0 (w0 False)) = Inl bad_input
   \<and> snapshots (snd (fit env_picky bad_loader None None None 1 0 (w0 False))) = (None, None, None, None)
   \<and> fst (fit env_picky loader1 None (Some bad_loader) None 1 0 (w0 False)) = Inl bad_input
   \<and> train_loss (snd (fit env_picky loader1 None (Some bad_loader) None 1 0 (w0 False))) \<noteq> None
   \<and> val_loss (snd (fit env_picky loader1 None (Some bad_loader) None 1 0 (w0 False))) = None"
proof -
  let ?w = "w0 False"
  have stuck: "ext OptStep (opt_step env_stuck) w = (Inl stuck, w\<lparr>trace := trace w @ [OptStep]\<rparr>)"
    for w :: "(nat, int) world"
    using exceptions_propagate[where g = "opt_step env_stuck" and w = w and e = stuck and ev = OptStep,
        THEN conjunct1]
    by (simp add: env_stuck_def)
  have 1: "fst (ext OptStep (opt_step env_stuck) ?w) = Inl stuck"
    by (simp add: stuck)
  have alarm: "emit env_alarm OnBatchBegin w =
      (Inl alarm_error,
       w\<lparr>trace := trace w @ [Emit OnBatchBegin (epoch w) (is_train w) (step w), Call 1 OnBatchBegin]\<rparr>)"
    for w :: "(nat, int) world"
    using exceptions_propagate[where E = env_alarm and cpre = "[forget_output]" and cb = alarm and cpost = "[flip_train]"
        and h = OnBatchBegin and w = w
        and wa = "w\<lparr>trace := trace w @ [Emit OnBatchBegin (epoch w) (is_train w) (step w)]\<rparr>"
        and hk = "lift (Inl alarm_error)" and e = alarm_error
        and wb = "w\<lparr>trace := trace w @ [Emit OnBatchBegin (epoch w) (is_train w) (step w), Call 1 OnBatchBegin]\<rparr>",
        THEN conjunct2, THEN conjunct1]
    by (simp add: env_alarm_def forget_output_def alarm_def run_hook_def lift_def)
  have 2: "emit env_alarm OnBatchBegin ?w
       = (Inl alarm_error, ?w\<lparr>trace := [Emit OnBatchBegin 0 False 0, Call 1 OnBatchBegin]\<rparr>)"
    by (simp add: alarm) (simp add: w0_def)
  have 3: "fst (make_step env_picky (- 1, 0) ?w) = Inl bad_input"
    using exceptions_propagate[where E = env_picky and w = ?w and x = "- 1" and t = 0 and e = bad_input,
        THEN conjunct2, THEN conjunct2, THEN conjunct1]
    by (simp add: env_picky_def)
  have 4: "fst (make_step (env0\<lparr>criterion := (\<lambda>_ _. Inl bad_input)\<rparr>) (1, 0) ?w) = Inl bad_input"
    using exceptions_propagate[where E = "env0\<lparr>criterion := (\<lambda>_ _. Inl bad_input)\<rparr>" and w = ?w
        and x = 1 and t = 0 and out = 1 and e = bad_input,
        THEN conjunct2, THEN conjunct2, THEN conjunct2, THEN conjunct1]
    by (simp add: env0_def)
  let ?t = "?w\<lparr>is_train := True\<rparr>"
  let ?t2 = "?t\<lparr>st_input := Some (1, 0), st_output := Some 1\<rparr>"
  have pre5: "seqs [ext ZeroGrad (zero_grad env_stuck), ext Backward (backward env_stuck 1)] ?t2
      = (Inr (), ?t2\<lparr>trace := [ZeroGrad, Backward]\<rparr>)"
    by (simp add: ext_def env_stuck_def env0_def w0_def)
  have 5: "fst (make_step env_stuck (1, 0) ?t) = Inl stuck"
    using exceptions_propagate[where E = env_stuck and w = ?t and x = 1 and t = 0 and out = 1 and loss = 1
        and pre = "[ext ZeroGrad (zero_grad env_stuck), ext Backward (backward env_stuck 1)]"
        and m = "ext OptStep (opt_step env_stuck)"
        and post = "[ext Synchronize (synchronize env_stuck)]"
        and wa = "?t2\<lparr>trace := [ZeroGrad, Backward]\<rparr>"
        and wb = "?t2\<lparr>trace := [ZeroGrad, Backward, OptStep]\<rparr>" and e = stuck,
        THEN conjunct2, THEN conjunct2, THEN conjunct2, THEN conjunct2, THEN conjunct1] pre5
      stuck[of "?t2\<lparr>trace := [ZeroGrad, Backward]\<rparr>"]
    by (simp add: env_stuck_def env0_def)
  let ?e2 = "?w\<lparr>st_input := Some (1, 0), st_output := Some 1\<rparr>"
  have 6: "fst (make_step (env0\<lparr>to_numpy := (\<lambda>_. Inl bad_input)\<rparr>) (1, 0) ?w) = Inl bad_input"
    using exceptions_propagate[where E = "env0\<lparr>to_numpy := (\<lambda>_. Inl bad_input)\<rparr>" and w = ?w
        and x = 1 and t = 0 and out = 1 and loss = 1 and wa = ?e2 and e = bad_input,
        THEN conjunct2, THEN conjunct2, THEN conjunct2, THEN conjunct2, THEN conjunct2, THEN conjunct1]
    by (simp add: env0_def w0_def ret_def)
  have 7: "fst (make_step (env0\<lparr>metrics := [\<lambda>_ _. Inl bad_input]\<rparr>) (1, 0) ?w) = Inl bad_input"
    using exceptions_propagate[where E = "env0\<lparr>metrics := [\<lambda>_ _. Inl bad_input]\<rparr>" and w = ?w
        and x = 1 and t = 0 and out = 1 and loss = 1 and wa = ?e2 and v = 1 and mpre = "[]"
        and mf = "\<lambda>_ _. Inl bad_input" and a = 1 and mpost = "[]"
        and wb = "update_at 1 0 ?e2" and e = bad_input,
        THEN conjunct2, THEN conjunct2, THEN conjunct2, THEN conjunct2, THEN conjunct2, THEN conjunct2, THEN conjunct1]
    by (simp add: env0_def w0_def ret_def update_at_def)
  have body: "batch_body env_alarm (i, b) w =
      (Inl alarm_error,
       w\<lparr>step := i, trace := trace w @ [Emit OnBatchBegin (epoch w) (is_train w) i, Call 1 OnBatchBegin]\<rparr>)"
    for i b and w :: "(nat, int) world"
    using exceptions_propagate[where E = env_alarm and i = i and b = b and w = w
        and pre = "[modify (\<lambda>w. w\<lparr>step := i\<rparr>)]"
        and m = "emit env_alarm OnBatchBegin"
        and post = "[make_step env_alarm b, bind (get verbose) (\<lambda>v. if v then bind (get desc) (\<lambda>d. log (SetPostfix d)) else ret ()), emit env_alarm OnBatchEnd]"
        and wa = "w\<lparr>step := i\<rparr>" and e = alarm_error
        and wb = "w\<lparr>step := i, trace := trace w @ [Emit OnBatchBegin (epoch w) (is_train w) i, Call 1 OnBatchBegin]\<rparr>",
        THEN conjunct2, THEN conjunct2, THEN conjunct2, THEN conjunct2, THEN conjunct2, THEN conjunct2, THEN conjunct2, THEN conjunct1]
    by (simp add: alarm modify_def)
  have 8: "fst (batch_body env_alarm (0, (1, 0)) ?w) = Inl alarm_error"
    by (simp add: body)
  have loop: "batch_loop env_alarm loader2 w =
      (Inl alarm_error,
       w\<lparr>step := 0, trace := trace w @ [Emit OnBatchBegin (epoch w) (is_train w) 0, Call 1 OnBatchBegin]\<rparr>)"
    for w :: "(nat, int) world"
    using exceptions_propagate[where E = env_alarm and loader = loader2 and ipre = "[]" and ib = "(0, (1, 0))"
        and ipost = "[(1, (3, 0))]" and w = w and wa = w and e = alarm_error
        and wb = "w\<lparr>step := 0, trace := trace w @ [Emit OnBatchBegin (epoch w) (is_train w) 0, Call 1 OnBatchBegin]\<rparr>",
        THEN conjunct2, THEN conjunct2, THEN conjunct2, THEN conjunct2, THEN conjunct2, THEN conjunct2, THEN conjunct2, THEN conjunct2, THEN conjunct1]
    by (simp add: body loader2_def)
  have 9: "fst (batch_loop env_alarm loader2 ?w) = Inl alarm_error"
    by (simp add: loop)
  have n: "steps_or_len None loader2 = Inr 2"
    by (simp add: steps_or_len_def py_len_def loader2_def)
  have run: "fst (run_one_epoch env_alarm loader2 None w) = Inl alarm_error" if "\<not> verbose w"
    for w :: "(nat, int) world"
    using exceptions_propagate[where E = env_alarm and w = w and steps = None and loader = loader2 and n = 2
        and e = alarm_error,
        THEN conjunct2, THEN conjunct2, THEN conjunct2, THEN conjunct2, THEN conjunct2, THEN conjunct2, THEN conjunct2, THEN conjunct2, THEN conjunct2, THEN conjunct1] that n loop
    by simp
  have 10: "fst (run_one_epoch env_alarm loader2 None ?w) = Inl alarm_error"
    by (rule run) (simp add: w0_def)
  have eval: "fst (evaluate env_alarm loader2 None w) = Inl alarm_error" if "\<not> verbose w"
    for w :: "(nat, int) world"
  proof -
    let ?v = "w\<lparr>is_train := False, training := False\<rparr>"
    have f: "fst (run_one_epoch env_alarm loader2 None ?v) = Inl alarm_error"
      by (rule run) (simp add: that)
    then have "run_one_epoch env_alarm loader2 None ?v
        = (Inl alarm_error, snd (run_one_epoch env_alarm loader2 None ?v))"
      by (metis prod.collapse)
    with exceptions_propagate[where E = env_alarm and w = w and steps = None and loader = loader2 and e = alarm_error
        and wb = "snd (run_one_epoch env_alarm loader2 None ?v)",
        THEN conjunct2, THEN conjunct2, THEN conjunct2, THEN conjunct2, THEN conjunct2, THEN conjunct2, THEN conjunct2, THEN conjunct2, THEN conjunct2, THEN conjunct2, THEN conjunct1] f
    show ?thesis by simp
  qed
  have 11: "fst (evaluate env_alarm loader2 None ?w) = Inl alarm_error"
    by (rule eval) (simp add: w0_def)
  have 12: "fst (validate env_alarm (Some loader2) None ?w) = Inl alarm_error"
  proof -
    from 11 have "evaluate env_alarm loader2 None ?w
        = (Inl alarm_error, snd (evaluate env_alarm loader2 None ?w))"
      by (metis prod.collapse)
    with exceptions_propagate[where E = env_alarm and l = loader2 and vs = None and w = ?w and e = alarm_error
        and wb = "snd (evaluate env_alarm loader2 None ?w)",
        THEN conjunct2, THEN conjunct2, THEN conjunct2, THEN conjunct2, THEN conjunct2, THEN conjunct2, THEN conjunct2, THEN conjunct2, THEN conjunct2, THEN conjunct2, THEN conjunct2, THEN conjunct1] 11
    show ?thesis by simp
  qed
  have quiet_emit: "emit env_alarm h w =
      (Inr (), w\<lparr>trace := trace w @ [Emit h (epoch w) (is_train w) (step w)]\<rparr>)"
    if "h \<noteq> OnBatchBegin" "h \<noteq> OnBatchEnd" for h and w :: "(nat, int) world"
    using that by (simp add: emit_def env_alarm_def forget_output_def alarm_def flip_train_def)
  have epoch: "fst (epoch_body env_alarm loader2 None None None k w) = Inl alarm_error"
    if "\<not> verbose w" for k and w :: "(nat, int) world"
  proof -
    let ?wa = "w\<lparr>is_train := True, epoch := k,
      trace := trace w @ [Emit OnEpochBegin k True (step w)], training := True\<rparr>"
    have "\<not> verbose ?wa" using that by simp
    note f = run[OF this]
    then have "run_one_epoch env_alarm loader2 None ?wa
        = (Inl alarm_error, snd (run_one_epoch env_alarm loader2 None ?wa))"
      by (metis prod.collapse)
    with exceptions_propagate[where E = env_alarm and trl = loader2 and st = None and vl = None and vs = None and k = k
        and w = w
        and pre = "[modify (\<lambda>w. w\<lparr>is_train := True\<rparr>), modify (\<lambda>w. w\<lparr>epoch := k\<rparr>), emit env_alarm OnEpochBegin, modify (\<lambda>w. w\<lparr>training := True\<rparr>)]"
        and m = "run_one_epoch env_alarm loader2 None"
        and post = "[modify snapshot_train, validate env_alarm None None, emit env_alarm OnEpochEnd]"
        and wa = ?wa and e = alarm_error
        and wb = "snd (run_one_epoch env_alarm loader2 None ?wa)",
        THEN conjunct2, THEN conjunct2, THEN conjunct2, THEN conjunct2, THEN conjunct2, THEN conjunct2, THEN conjunct2, THEN conjunct2, THEN conjunct2, THEN conjunct2, THEN conjunct2, THEN conjunct2, THEN conjunct1] f
    show ?thesis by (simp add: quiet_emit modify_def)
  qed
  have 13: "fst (epoch_body env_alarm loader2 None None None 0 ?w) = Inl alarm_error"
    by (rule epoch) (simp add: w0_def)
  have eloop: "fst (seqs (map (epoch_body env_alarm loader2 None None None) (py_range 0 2)) w)
      = Inl alarm_error" if "\<not> verbose w" for w :: "(nat, int) world"
  proof -
    note f = epoch[OF that, of 0]
    then have "epoch_body env_alarm loader2 None None None 0 w
        = (Inl alarm_error, snd (epoch_body env_alarm loader2 None None None 0 w))"
      by (metis prod.collapse)
    with exceptions_propagate[where E = env_alarm and trl = loader2 and st = None and vl = None and vs = None
        and start = 0 and epochs = 2 and kpre = "[]" and k = 0 and kpost = "[1]" and w = w
        and wa = w and e = alarm_error
        and wb = "snd (epoch_body env_alarm loader2 None None None 0 w)",
        THEN conjunct2, THEN conjunct2, THEN conjunct2, THEN conjunct2, THEN conjunct2, THEN conjunct2, THEN conjunct2, THEN conjunct2, THEN conjunct2, THEN conjunct2, THEN conjunct2, THEN conjunct2, THEN conjunct2, THEN conjunct1] f
    show ?thesis by (simp add: py_range_def upto_rec1)
  qed
  have 14: "fst (seqs (map (epoch_body env_alarm loader2 None None None) (py_range 0 2)) ?w)
      = Inl alarm_error"
    by (rule eloop) (simp add: w0_def)
  have 15: "fst (fit env_alarm loader2 None None None 2 0 ?w) = Inl alarm_error"
  proof -
    let ?wa = "?w\<lparr>num_epochs := 2,
      batch_size := (case batch_size_attr loader2 of Some b \<Rightarrow> b | None \<Rightarrow> 1),
      trace := [Emit OnTrainBegin 0 False 0]\<rparr>"
    have "\<not> verbose ?wa" by (simp add: w0_def)
    note f = eloop[OF this]
    then have "seqs (map (epoch_body env_alarm loader2 None None None) (py_range 0 2)) ?wa
        = (Inl alarm_error,
           snd (seqs (map (epoch_body env_alarm loader2 None None None) (py_range 0 2)) ?wa))"
      by (metis prod.collapse)
    with exceptions_propagate[where E = env_alarm and trl = loader2 and st = None and vl = None and vs = None
        and start = 0 and epochs = 2 and w = ?w
        and pre = "[modify (\<lambda>w. w\<lparr>num_epochs := 2\<rparr>), modify (\<lambda>w. w\<lparr>batch_size := (case batch_size_attr loader2 of Some b \<Rightarrow> b | None \<Rightarrow> 1)\<rparr>), emit env_alarm OnTrainBegin]"
        and m = "seqs (map (epoch_body env_alarm loader2 None None None) (py_range 0 2))"
        and post = "[emit env_alarm OnTrainEnd]" and wa = ?wa and e = alarm_error
        and wb = "snd (seqs (map (epoch_body env_alarm loader2 None None None) (py_range 0 2)) ?wa)",
        THEN conjunct2, THEN conjunct2, THEN conjunct2, THEN conjunct2, THEN conjunct2, THEN conjunct2, THEN conjunct2, THEN conjunct2, THEN conjunct2, THEN conjunct2, THEN conjunct2, THEN conjunct2, THEN conjunct2, THEN conjunct2, THEN conjunct1] f
    show ?thesis by (simp add: quiet_emit modify_def w0_def)
  qed
  have hk: "hooks_keep (\<lambda>_. True) snapshots env_picky"
    by (rule hooks_keep_Nil) (rule callbacks_env_picky)
  obtain wa wc wd where t:
    "emit env_picky OnTrainBegin (?w\<lparr>num_epochs := 1,
       batch_size := (case batch_size_attr bad_loader of Some b \<Rightarrow> b | None \<Rightarrow> 1)\<rparr>) = (Inr (), wa)"
    "seqs (map (epoch_body env_picky bad_loader None None None) (py_range 0 0)) wa = (Inr (), wa)"
    "emit env_picky OnEpochBegin (wa\<lparr>is_train := True, epoch := 0\<rparr>) = (Inr (), wc)"
    "run_one_epoch env_picky bad_loader None (wc\<lparr>training := True\<rparr>) = (Inl bad_input, wd)"
    "snapshots wa = (None, None, None, None)"
    using train_scenario by blast
  from exceptions_propagate[where E = env_picky and w = ?w and start = 0 and k = 0 and epochs = 1 and trl = bad_loader
        and st = None and vl = None and vs = None and wa = wa and wb = wa and wc = wc
        and wd = wd and e = bad_input,
        THEN conjunct2, THEN conjunct2, THEN conjunct2, THEN conjunct2, THEN conjunct2, THEN conjunct2, THEN conjunct2, THEN conjunct2, THEN conjunct2, THEN conjunct2, THEN conjunct2, THEN conjunct2, THEN conjunct2, THEN conjunct2, THEN conjunct2, THEN conjunct1] t hk
  have 16: "fst (fit env_picky bad_loader None None None 1 0 ?w) = Inl bad_input"
    "snapshots (snd (fit env_picky bad_loader None None None 1 0 ?w)) = (None, None, None, None)"
    by simp_all
  obtain va vc vd ve where v:
    "emit env_picky OnTrainBegin (?w\<lparr>num_epochs := 1,
       batch_size := (case batch_size_attr loader1 of Some b \<Rightarrow> b | None \<Rightarrow> 1)\<rparr>) = (Inr (), va)"
    "seqs (map (epoch_body env_picky loader1 None (Some bad_loader) None) (py_range 0 0)) va
         = (Inr (), va)"
    "emit env_picky OnEpochBegin (va\<lparr>is_train := True, epoch := 0\<rparr>) = (Inr (), vc)"
    "run_one_epoch env_picky loader1 None (vc\<lparr>training := True\<rparr>) = (Inr (), vd)"
    "evaluate env_picky bad_loader None (snapshot_train vd) = (Inl bad_input, ve)"
    "val_loss va = None" "val_metrics va = None"
    using val_scenario by blast
  from exceptions_propagate[where E = env_picky and w = ?w and start = 0 and k = 0 and epochs = 1 and trl = loader1
        and st = None and l = bad_loader and vs = None and wa = va and wb = va and wc = vc
        and wd = vd and we = ve and e = bad_input,
        THEN conjunct2, THEN conjunct2, THEN conjunct2, THEN conjunct2, THEN conjunct2, THEN conjunct2, THEN conjunct2, THEN conjunct2, THEN conjunct2, THEN conjunct2, THEN conjunct2, THEN conjunct2, THEN conjunct2, THEN conjunct2, THEN conjunct2, THEN conjunct2] v hk
  have 17: "fst (fit env_picky loader1 None (Some bad_loader) None 1 0 ?w) = Inl bad_input"
    "train_loss (snd (fit env_picky loader1 None (Some bad_loader) None 1 0 ?w)) \<noteq> None"
    "val_loss (snd (fit env_picky loader1 None (Some bad_loader) None 1 0 ?w)) = None"
    by simp_all
  from 1 2 3 4 5 6 7 8 9 10 11 12 13 14 15 16 17 show ?thesis by simp
qed

text \<open>
  C9 fails as stated: with one good training batch and a validation batch that makes the model
  raise, \<^verbatim>\<open>fit\<close> raises that error in its first epoch, and the training snapshot of that epoch
  is already stored in the context.
\<close>

theorem validation_raise_after_train_snapshot_counterexample:
  "fst (fit env_picky loader1 None (Some bad_loader) None 1 0 (w0 False)) = Inl bad_input
   \<and> train_loss (w0 False) = None
   \<and> train_loss (snd (fit env_picky loader1 None (Some bad_loader) None 1 0 (w0 False))) \<noteq> None"
proof -
  have hk: "hooks_keep (\<lambda>_. True) snapshots env_picky"
    by (rule hooks_keep_Nil) (rule callbacks_env_picky)
  obtain va vc vd ve where v:
    "emit env_picky OnTrainBegin ((w0 False)\<lparr>num_epochs := 1,
       batch_size := (case batch_size_attr loader1 of Some b \<Rightarrow> b | None \<Rightarrow> 1)\<rparr>) = (Inr (), va)"
    "seqs (map (epoch_body env_picky loader1 None (Some bad_loader) None) (py_range 0 0)) va
         = (Inr (), va)"
    "emit env_picky OnEpochBegin (va\<lparr>is_train := True, epoch := 0\<rparr>) = (Inr (), vc)"
    "run_one_epoch env_picky loader1 None (vc\<lparr>training := True\<rparr>) = (Inr (), vd)"
    "evaluate env_picky bad_loader None (snapshot_train vd) = (Inl bad_input, ve)"
    using val_scenario by blast
  note r = epoch_body_val_raise[OF hk v(3) v(4) v(5)]
  have "fit env_picky loader1 None (Some bad_loader) None 1 0 (w0 False) = (Inl bad_input, ve)"
    by (rule fit_epoch_raise[where k = 0, OF _ _ v(1) v(2) r(1)]) simp_all
  with r(2) show ?thesis by (simp add: w0_def)
qed

end
